theory Spec2Isabelle
  imports Complex_Main "HOL-Library.Word"
begin

unbundle bit_operations_syntax

section \<open>The draw pipeline of RendererD3D.cpp\<close>

text \<open>
  The theory embeds \<^verbatim>\<open>src/libGLESv2/renderer/d3d/RendererD3D.cpp\<close>: the two draw
  entry points, the steps they run in order, the sample-coverage mask, the
  framebuffer texture serials and the cache of incomplete textures.
\<close>

subsection \<open>Single-precision arithmetic\<close>

text \<open>
  \<^verbatim>\<open>GLclampf\<close> and \<^verbatim>\<open>float\<close> are IEEE 754 binary32. A value is a rational
  number, an infinity or a NaN; the two zeros are one value, which is sound here because
  the source only multiplies, adds and compares. Every operation rounds its exact result
  to the nearest representable value, ties to even (the default rounding mode, each
  operation evaluated in single precision).

  A magnitude is rounded in units of \<open>2 ^ -149\<close>, the spacing of the subnormal
  numbers: \<open>excess_bits\<close> counts the low bits that do not fit a significand of 24 bits.
\<close>

datatype float32 = Finite rat | PlusInf | MinusInf | NaN

function excess_bits :: "int \<Rightarrow> nat" where
  "excess_bits n = (if n < 16777216 then 0 else Suc (excess_bits (n div 2)))"
  by pat_completeness auto
termination
  by (relation "measure nat") auto

declare excess_bits.simps [simp del]

definition round_ties_even :: "rat \<Rightarrow> int" where
  "round_ties_even z =
     (let f = \<lfloor>z\<rfloor>; d = z - of_int f
      in if d < 1 / 2 then f else if 1 / 2 < d then f + 1 else if even f then f else f + 1)"

definition round_mag :: "rat \<Rightarrow> rat" where
  "round_mag x =
     (let y = x * 2 ^ 149; k = excess_bits \<lfloor>y\<rfloor>
      in of_int (round_ties_even (y / 2 ^ k)) * 2 ^ k / 2 ^ 149)"

definition round32 :: "rat \<Rightarrow> float32" where
  "round32 x =
     (let m = round_mag \<bar>x\<bar>
      in if 2 ^ 128 \<le> m then (if 0 \<le> x then PlusInf else MinusInf)
         else Finite (if 0 \<le> x then m else - m))"

text \<open>Conversion of an \<^verbatim>\<open>int\<close> to \<^verbatim>\<open>float\<close>.\<close>

definition float_of_int :: "int \<Rightarrow> float32" where
  "float_of_int n = round32 (of_int n)"

fun fmul :: "float32 \<Rightarrow> float32 \<Rightarrow> float32" where
  "fmul NaN _ = NaN"
| "fmul _ NaN = NaN"
| "fmul (Finite a) (Finite b) = round32 (a * b)"
| "fmul (Finite a) PlusInf = (if a = 0 then NaN else if 0 < a then PlusInf else MinusInf)"
| "fmul (Finite a) MinusInf = (if a = 0 then NaN else if 0 < a then MinusInf else PlusInf)"
| "fmul PlusInf (Finite b) = (if b = 0 then NaN else if 0 < b then PlusInf else MinusInf)"
| "fmul MinusInf (Finite b) = (if b = 0 then NaN else if 0 < b then MinusInf else PlusInf)"
| "fmul PlusInf PlusInf = PlusInf"
| "fmul PlusInf MinusInf = MinusInf"
| "fmul MinusInf PlusInf = MinusInf"
| "fmul MinusInf MinusInf = PlusInf"

fun fadd :: "float32 \<Rightarrow> float32 \<Rightarrow> float32" where
  "fadd NaN _ = NaN"
| "fadd _ NaN = NaN"
| "fadd (Finite a) (Finite b) = round32 (a + b)"
| "fadd PlusInf MinusInf = NaN"
| "fadd MinusInf PlusInf = NaN"
| "fadd PlusInf _ = PlusInf"
| "fadd MinusInf _ = MinusInf"
| "fadd _ PlusInf = PlusInf"
| "fadd _ MinusInf = MinusInf"

text \<open>\<open>fge a b\<close> is \<^verbatim>\<open>a >= b\<close> and \<open>fneq a b\<close> is \<^verbatim>\<open>a != b\<close>: a comparison with
  a NaN is false, except \<^verbatim>\<open>!=\<close>, which is true.\<close>

fun fge :: "float32 \<Rightarrow> float32 \<Rightarrow> bool" where
  "fge NaN _ = False"
| "fge _ NaN = False"
| "fge (Finite a) (Finite b) = (b \<le> a)"
| "fge PlusInf _ = True"
| "fge _ MinusInf = True"
| "fge (Finite a) PlusInf = False"
| "fge MinusInf _ = False"

fun fneq :: "float32 \<Rightarrow> float32 \<Rightarrow> bool" where
  "fneq NaN _ = True"
| "fneq _ NaN = True"
| "fneq a b = (a \<noteq> b)"

subsection \<open>The sample-coverage mask (applyState, lines 287 to 317)\<close>

text \<open>
  The loop \<^verbatim>\<open>for (int i = 0; i < samples; ++i)\<close> with its two variables
  \<^verbatim>\<open>threshold\<close> and \<^verbatim>\<open>mask\<close> (here \<open>msk\<close>). The mask is an \<^verbatim>\<open>unsigned int\<close>, a word of 32
  bits: the left shift drops the top bit. \<^verbatim>\<open>i + 1\<close> does not overflow, as
  \<^verbatim>\<open>i < samples\<close>.
\<close>

function coverageLoop :: "float32 \<Rightarrow> int \<Rightarrow> int \<Rightarrow> float32 \<Rightarrow> 32 word \<Rightarrow> 32 word" where
  "coverageLoop coverageValue samples i threshold msk =
     (if i < samples then
        (if fge (fmul (float_of_int (i + 1)) coverageValue) threshold
         then coverageLoop coverageValue samples (i + 1) (fadd threshold (Finite 1))
                (push_bit 1 msk OR 1)
         else coverageLoop coverageValue samples (i + 1) threshold (push_bit 1 msk))
      else msk)"
  by pat_completeness auto
termination
  by (relation "measure (\<lambda>(c, samples, i, t, m). nat (samples - i))") auto

declare coverageLoop.simps [simp del]

text \<open>The mask handed to \<^verbatim>\<open>setBlendState\<close>, from the three sample-coverage values of
  the state and the sample count of the draw framebuffer.\<close>

definition sampleMask :: "bool \<Rightarrow> float32 \<Rightarrow> bool \<Rightarrow> int \<Rightarrow> 32 word" where
  "sampleMask coverageEnabled coverageValue coverageInvert samples =
     (if coverageEnabled then
        (let msk = (if fneq coverageValue (Finite 0)
                     then coverageLoop coverageValue samples 0 (Finite (1 / 2)) 0
                     else 0)
         in if coverageInvert then NOT msk else msk)
      else 0xFFFFFFFF)"

subsection \<open>The ladder as the specification words it\<close>

text \<open>
  Sample indices \<open>0..S-1\<close>, a running threshold that starts at one half; each sample
  shifts the mask left by one bit and, when \<open>(index + 1) * c >= threshold\<close>, sets the new
  low bit and advances the threshold by one.
\<close>

definition ladder_step :: "float32 \<Rightarrow> nat \<Rightarrow> 32 word \<times> float32 \<Rightarrow> 32 word \<times> float32" where
  "ladder_step c idx st =
     (let shifted = push_bit 1 (fst st)
      in if fge (fmul (float_of_int (int idx + 1)) c) (snd st)
         then (shifted OR 1, fadd (snd st) (Finite 1))
         else (shifted, snd st))"

definition ladder_spec :: "nat \<Rightarrow> float32 \<Rightarrow> 32 word" where
  "ladder_spec S c = fst (fold (ladder_step c) [0..<S] (0, Finite (1 / 2)))"

text \<open>The number of bits set in a mask.\<close>

definition popcount :: "32 word \<Rightarrow> nat" where
  "popcount w = length (filter (bit w) [0..<32])"

subsection \<open>Values of the client API\<close>

text \<open>
  Enumerants are the numbers of the Khronos headers. Sizes and indices that the source
  holds in \<^verbatim>\<open>GLint\<close> or \<^verbatim>\<open>GLsizei\<close> are integers; object names and
  addresses are natural numbers and are only compared.
\<close>

type_synonym GLenum = nat
type_synonym GLuint = nat
type_synonym GLint = int
type_synonym GLsizei = int

abbreviation (input) GL_NO_ERROR :: GLenum where "GL_NO_ERROR \<equiv> 0"
abbreviation (input) GL_INVALID_OPERATION :: GLenum where "GL_INVALID_OPERATION \<equiv> 0x0502"
abbreviation (input) GL_POINTS :: GLenum where "GL_POINTS \<equiv> 0x0000"
abbreviation (input) GL_TRIANGLES :: GLenum where "GL_TRIANGLES \<equiv> 0x0004"
abbreviation (input) GL_TRIANGLE_STRIP :: GLenum where "GL_TRIANGLE_STRIP \<equiv> 0x0005"
abbreviation (input) GL_TRIANGLE_FAN :: GLenum where "GL_TRIANGLE_FAN \<equiv> 0x0006"
abbreviation (input) GL_FRONT_AND_BACK :: GLenum where "GL_FRONT_AND_BACK \<equiv> 0x0408"
abbreviation (input) GL_CCW :: GLenum where "GL_CCW \<equiv> 0x0901"
abbreviation (input) GL_TEXTURE_2D :: GLenum where "GL_TEXTURE_2D \<equiv> 0x0DE1"
abbreviation (input) GL_TEXTURE_3D :: GLenum where "GL_TEXTURE_3D \<equiv> 0x806F"
abbreviation (input) GL_TEXTURE_CUBE_MAP :: GLenum where "GL_TEXTURE_CUBE_MAP \<equiv> 0x8513"
abbreviation (input) GL_TEXTURE_2D_ARRAY :: GLenum where "GL_TEXTURE_2D_ARRAY \<equiv> 0x8C1A"
abbreviation (input) GL_FRAMEBUFFER_COMPLETE :: GLenum where "GL_FRAMEBUFFER_COMPLETE \<equiv> 0x8CD5"

text \<open>The number of colour attachment points of a framebuffer (ANGLE's
  \<^verbatim>\<open>Constants.h\<close>). No proof below depends on the value.\<close>

definition IMPLEMENTATION_MAX_DRAW_BUFFERS :: nat where
  "IMPLEMENTATION_MAX_DRAW_BUFFERS = 8"

text \<open>\<^verbatim>\<open>gl::Error\<close>: a code and a message; \<^verbatim>\<open>isError()\<close> holds of every code but
  \<^verbatim>\<open>GL_NO_ERROR\<close>.\<close>

record gl_Error =
  errorCode :: GLenum
  errorMessage :: string

definition isError :: "gl_Error \<Rightarrow> bool" where
  "isError e = (errorCode e \<noteq> GL_NO_ERROR)"

definition NoError :: gl_Error where
  "NoError = \<lparr>errorCode = GL_NO_ERROR, errorMessage = []\<rparr>"

text \<open>
  What a call of this file yields: the \<^verbatim>\<open>gl::Error\<close> it returns, or no value at all
  when an \<^verbatim>\<open>ASSERT\<close> fails in a build that checks assertions.
\<close>

datatype Result = Returned gl_Error | AssertFailed

subsection \<open>The client state a draw call reads\<close>

text \<open>
  \<^verbatim>\<open>gl::Data\<close> and the objects behind it are declared outside this file; the records
  hold what the functions of this file read from them. A \<^verbatim>\<open>gl::Texture*\<close> or
  \<^verbatim>\<open>gl::Buffer*\<close> is the address of the object. The pointers the source dereferences
  without a test (the program binary, the draw framebuffer, the texture of a sampler, the
  vertex array) are never null in the model.
\<close>

type_synonym TexturePtr = nat
type_synonym BufferPtr = nat

datatype SamplerType = SAMPLER_PIXEL | SAMPLER_VERTEX

record SamplerState =
  swizzleRequired :: bool
  samplingParameters :: "GLenum list"

record RasterizerState =
  cullFace :: bool
  cullMode :: GLenum
  frontFace :: GLenum
  rasterizerDiscard :: bool
  pointDrawMode :: bool
  multiSample :: bool

record Rectangle =
  rectX :: int
  rectY :: int
  rectWidth :: int
  rectHeight :: int

datatype FramebufferAttachment = TextureAttachment TexturePtr | RenderbufferAttachment GLuint

record Framebuffer =
  colorbuffers :: "FramebufferAttachment option list"
  depthOrStencilbuffer :: "FramebufferAttachment option"
  fbSamples :: int
  fbCompleteness :: GLenum

definition getColorbuffer :: "Framebuffer \<Rightarrow> nat \<Rightarrow> FramebufferAttachment option" where
  "getColorbuffer fb i = (if i < length (colorbuffers fb) then colorbuffers fb ! i else None)"

record TransformFeedback =
  isStarted :: bool
  isPaused :: bool

record Buffer =
  bufferAddress :: BufferPtr
  bufferId :: GLuint

record RangeUI =
  rangeStart :: "32 word"
  rangeEnd :: "32 word"

definition rangeLength :: "RangeUI \<Rightarrow> 32 word" where
  "rangeLength rg = rangeEnd rg - rangeStart rg"

record TranslatedIndexData =
  indexRange :: RangeUI
  translation :: nat

record ProgramBinary =
  usedSamplerRange :: "SamplerType \<Rightarrow> nat"
  samplerTextureType :: "SamplerType \<Rightarrow> nat \<Rightarrow> GLenum"
  samplerMapping :: "SamplerType \<Rightarrow> nat \<Rightarrow> GLint"
  usesPointSize :: bool
  activeUniformBlockCount :: nat

record Caps =
  maxTextureImageUnits :: nat
  maxVertexTextureImageUnits :: nat
  maxTransformFeedbackSeparateAttributes :: nat

record State =
  currentProgramId :: GLuint
  samplerTexture :: "GLint \<Rightarrow> GLenum \<Rightarrow> TexturePtr"
  samplerObject :: "GLint \<Rightarrow> (SamplerState \<Rightarrow> SamplerState) option"
  sampleCoverageEnabled :: bool
  sampleCoverageValue :: float32
  sampleCoverageInvert :: bool
  rasterizerState :: RasterizerState
  blendState :: nat
  blendColor :: nat
  depthStencilState :: nat
  stencilRef :: GLint
  stencilBackRef :: GLint
  viewport :: Rectangle
  depthNear :: float32
  depthFar :: float32
  scissor :: Rectangle
  scissorTestEnabled :: bool
  indexedUniformBuffer :: "GLuint \<Rightarrow> Buffer"
  indexedTransformFeedbackBuffer :: "nat \<Rightarrow> BufferPtr option"
  currentTransformFeedback :: "TransformFeedback option"
  drawFramebuffer :: Framebuffer
  elementArrayBuffer :: "BufferPtr option"

text \<open>
  \<open>samplerObject st unit\<close> is \<open>None\<close> when no sampler object is bound to the unit, and
  otherwise what its \<^verbatim>\<open>getState\<close> writes over the texture's own sampler state.
  \<open>textureSerial\<close>, \<open>textureSamplerState\<close> and \<open>isSamplerComplete\<close> are the
  methods of \<^verbatim>\<open>gl::Texture\<close> the file calls, by the address of the texture; the
  capabilities and the client version of \<open>isSamplerComplete\<close> are fixed during a call.
\<close>

record Data =
  state :: State
  programBinary :: ProgramBinary
  uniformBlockBinding :: "nat \<Rightarrow> GLuint"
  caps :: Caps
  textureSerial :: "TexturePtr \<Rightarrow> 32 word"
  textureSamplerState :: "TexturePtr \<Rightarrow> SamplerState"
  isSamplerComplete :: "TexturePtr \<Rightarrow> SamplerState \<Rightarrow> bool"

subsection \<open>Calls that leave this file\<close>

text \<open>
  The renderer back end (the virtual functions of \<^verbatim>\<open>RendererD3D\<close>), the program
  binary and the buffers are outside this file. A call to them is an event, recorded with
  its arguments in the order of the calls.
\<close>

datatype Event =
    UpdateSamplerMapping
  | GenerateSwizzle TexturePtr
  | ApplyPrimitiveType GLenum GLsizei
  | ApplyRenderTarget Framebuffer
  | SetViewport Rectangle float32 float32 GLenum GLenum bool
  | SetScissorRectangle Rectangle bool
  | SetRasterizerState RasterizerState
  | SetBlendState Framebuffer nat nat "32 word"
  | SetDepthStencilState nat GLint GLint bool
  | ApplyIndexBuffer nat "BufferPtr option" GLsizei GLenum GLenum RangeUI
  | ApplyVertexBuffer GLint GLsizei GLsizei
  | ApplyTransformFeedbackBuffers
  | ApplyShaders bool bool
  | ApplyUniforms
  | SetSamplerState SamplerType nat TexturePtr SamplerState
  | SetTexture SamplerType nat "TexturePtr option"
  | CreateTexture GLenum
  | ApplyUniformBuffers "Buffer list"
  | DrawArrays GLenum GLsizei GLsizei bool
  | DrawElements GLenum GLsizei GLenum nat "BufferPtr option" TranslatedIndexData GLsizei
  | MarkTransformFeedbackUsage BufferPtr

text \<open>
  What the outside answers is a parameter of every function: the \<^verbatim>\<open>gl::Error\<close> of a
  call that returns one, the truth value of \<^verbatim>\<open>applyPrimitiveType\<close> and the index data
  that \<^verbatim>\<open>applyIndexBuffer\<close> writes, each as a function of the calls made so far and of
  the call itself. \<open>assertionsEnabled\<close> tells whether the build checks \<^verbatim>\<open>ASSERT\<close>
  and \<^verbatim>\<open>UNREACHABLE\<close>.
\<close>

record Environment =
  stepResult :: "Event list \<Rightarrow> Event \<Rightarrow> gl_Error"
  primitiveTypeResult :: "Event list \<Rightarrow> GLenum \<Rightarrow> GLsizei \<Rightarrow> bool"
  translatedIndices :: "Event list \<Rightarrow> Event \<Rightarrow> TranslatedIndexData"
  assertionsEnabled :: bool

text \<open>
  The renderer and the heap around it: the calls made so far, the map
  \<^verbatim>\<open>mIncompleteTextures\<close>, the texture objects this renderer has created with
  \<^verbatim>\<open>new\<close> (by address, with the class they were constructed as), the first address
  that \<^verbatim>\<open>new\<close> has not handed out, and the lines written with \<^verbatim>\<open>ERR\<close>.
\<close>

record RendererD3D =
  deviceCalls :: "Event list"
  mIncompleteTextures :: "GLenum \<rightharpoonup> TexturePtr"
  createdTextures :: "TexturePtr \<rightharpoonup> GLenum"
  nextAddress :: nat
  diagnostics :: "string list"

definition call :: "Environment \<Rightarrow> Event \<Rightarrow> RendererD3D \<Rightarrow> gl_Error \<times> RendererD3D" where
  "call env ev r = (stepResult env (deviceCalls r) ev, r\<lparr>deviceCalls := deviceCalls r @ [ev]\<rparr>)"

definition callVoid :: "Event \<Rightarrow> RendererD3D \<Rightarrow> RendererD3D" where
  "callVoid ev r = r\<lparr>deviceCalls := deviceCalls r @ [ev]\<rparr>"

definition step :: "Environment \<Rightarrow> Event \<Rightarrow> RendererD3D \<Rightarrow> Result \<times> RendererD3D" where
  "step env ev r = (Returned (fst (call env ev r)), snd (call env ev r))"

definition succeed :: "RendererD3D \<Rightarrow> Result \<times> RendererD3D" where
  "succeed r = (Returned NoError, r)"

text \<open>\<open>andThen f g\<close> is the idiom
  \<^verbatim>\<open>error = f(...); if (error.isError()) { return error; }\<close> followed by \<open>g\<close>.\<close>

definition andThen ::
  "(RendererD3D \<Rightarrow> Result \<times> RendererD3D) \<Rightarrow> (RendererD3D \<Rightarrow> Result \<times> RendererD3D) \<Rightarrow>
   RendererD3D \<Rightarrow> Result \<times> RendererD3D" where
  "andThen f g r =
     (case f r of
        (Returned error, r') \<Rightarrow> if isError error then (Returned error, r') else g r'
      | (AssertFailed, r') \<Rightarrow> (AssertFailed, r'))"

text \<open>Modelled from the spec: the macro \<^verbatim>\<open>ASSERT\<close> is not in this file. A
  precondition is asserted, not recovered: where assertions are checked, a false condition
  ends the call without a result.\<close>

definition ASSERT ::
  "Environment \<Rightarrow> bool \<Rightarrow> (RendererD3D \<Rightarrow> Result \<times> RendererD3D) \<Rightarrow>
   RendererD3D \<Rightarrow> Result \<times> RendererD3D" where
  "ASSERT env cond k r = (if assertionsEnabled env \<and> \<not> cond then (AssertFailed, r) else k r)"

subsection \<open>generateSwizzles (lines 203 to 246)\<close>

text \<open>A loop \<^verbatim>\<open>for (size_t i = 0; i < n; i++)\<close> runs over the list \<open>[0..<n]\<close>.\<close>

fun generateSwizzlesLoop ::
  "Environment \<Rightarrow> Data \<Rightarrow> SamplerType \<Rightarrow> nat list \<Rightarrow> RendererD3D \<Rightarrow> Result \<times> RendererD3D" where
  "generateSwizzlesLoop env data type [] r = (Returned NoError, r)"
| "generateSwizzlesLoop env data type (i # rest) r =
     (let textureType = samplerTextureType (programBinary data) type i;
          textureUnit = samplerMapping (programBinary data) type i
      in if textureUnit \<noteq> - 1 then
           (let texture = samplerTexture (state data) textureUnit textureType
            in if swizzleRequired (textureSamplerState data texture) then
                 (case call env (GenerateSwizzle texture) r of
                    (error, r1) \<Rightarrow>
                      if isError error then (Returned error, r1)
                      else generateSwizzlesLoop env data type rest r1)
               else generateSwizzlesLoop env data type rest r)
         else generateSwizzlesLoop env data type rest r)"

definition generateSwizzlesFor ::
  "Environment \<Rightarrow> Data \<Rightarrow> SamplerType \<Rightarrow> RendererD3D \<Rightarrow> Result \<times> RendererD3D" where
  "generateSwizzlesFor env data type =
     generateSwizzlesLoop env data type [0..<usedSamplerRange (programBinary data) type]"

definition generateSwizzles :: "Environment \<Rightarrow> Data \<Rightarrow> RendererD3D \<Rightarrow> Result \<times> RendererD3D" where
  "generateSwizzles env data =
     andThen (generateSwizzlesFor env data SAMPLER_VERTEX)
       (andThen (generateSwizzlesFor env data SAMPLER_PIXEL) succeed)"

subsection \<open>applyRenderTarget (lines 250 to 269)\<close>

definition applyRenderTarget ::
  "Environment \<Rightarrow> Data \<Rightarrow> GLenum \<Rightarrow> bool \<Rightarrow> RendererD3D \<Rightarrow> Result \<times> RendererD3D" where
  "applyRenderTarget env data drawMode ignoreViewport =
     (let framebufferObject = drawFramebuffer (state data)
      in ASSERT env (fbCompleteness framebufferObject = GL_FRAMEBUFFER_COMPLETE)
           (andThen (step env (ApplyRenderTarget framebufferObject))
              (\<lambda>r. succeed
                 (callVoid (SetScissorRectangle (scissor (state data))
                              (scissorTestEnabled (state data)))
                    (callVoid (SetViewport (viewport (state data)) (depthNear (state data))
                                 (depthFar (state data)) drawMode
                                 (frontFace (rasterizerState (state data))) ignoreViewport)
                       r)))))"

subsection \<open>applyState (lines 272 to 332)\<close>

definition applyState ::
  "Environment \<Rightarrow> Data \<Rightarrow> GLenum \<Rightarrow> RendererD3D \<Rightarrow> Result \<times> RendererD3D" where
  "applyState env data drawMode =
     (let framebufferObject = drawFramebuffer (state data);
          samples = fbSamples framebufferObject;
          rasterizer = (rasterizerState (state data))
            \<lparr>pointDrawMode := (drawMode = GL_POINTS), multiSample := (samples \<noteq> 0)\<rparr>;
          msk = sampleMask (sampleCoverageEnabled (state data)) (sampleCoverageValue (state data))
                  (sampleCoverageInvert (state data)) samples
      in andThen (step env (SetRasterizerState rasterizer))
           (andThen (step env (SetBlendState framebufferObject (blendState (state data))
                                 (blendColor (state data)) msk))
              (andThen (step env (SetDepthStencilState (depthStencilState (state data))
                                    (stencilRef (state data)) (stencilBackRef (state data))
                                    (frontFace rasterizer = GL_CCW)))
                 succeed)))"

subsection \<open>applyTransformFeedbackBuffers and applyShaders (lines 334 to 365)\<close>

definition transformFeedbackActive :: "Data \<Rightarrow> bool" where
  "transformFeedbackActive data =
     (case currentTransformFeedback (state data) of
        None \<Rightarrow> False
      | Some curTransformFeedback \<Rightarrow>
          isStarted curTransformFeedback \<and> \<not> isPaused curTransformFeedback)"

definition applyTransformFeedbackBuffers :: "Data \<Rightarrow> RendererD3D \<Rightarrow> bool \<times> RendererD3D" where
  "applyTransformFeedbackBuffers data r =
     (if transformFeedbackActive data then (True, callVoid ApplyTransformFeedbackBuffers r)
      else (False, r))"

definition applyShaders ::
  "Environment \<Rightarrow> Data \<Rightarrow> bool \<Rightarrow> RendererD3D \<Rightarrow> Result \<times> RendererD3D" where
  "applyShaders env data tfActive =
     andThen (step env (ApplyShaders (rasterizerDiscard (rasterizerState (state data))) tfActive))
       (step env ApplyUniforms)"

subsection \<open>getBoundFramebufferTextureSerials (lines 531 to 557)\<close>

text \<open>
  The function fills a prefix of a fixed array and returns its length; the model returns
  the prefix. The array has room for every attachment point, so no write is out of range.
  \<^verbatim>\<open>std::sort\<close> on unsigned integers yields the one ascending arrangement of the
  elements, which is \<open>sort\<close>.
\<close>

definition attachmentSerial :: "Data \<Rightarrow> FramebufferAttachment option \<Rightarrow> 32 word list" where
  "attachmentSerial data attachment =
     (case attachment of
        Some (TextureAttachment texture) \<Rightarrow> [textureSerial data texture]
      | _ \<Rightarrow> [])"

definition getBoundFramebufferTextureSerials :: "Data \<Rightarrow> 32 word list" where
  "getBoundFramebufferTextureSerials data =
     (let drawFramebuffer = drawFramebuffer (state data)
      in sort (concat (map (\<lambda>i. attachmentSerial data (getColorbuffer drawFramebuffer i))
                         [0..<IMPLEMENTATION_MAX_DRAW_BUFFERS])
               @ attachmentSerial data (depthOrStencilbuffer drawFramebuffer)))"

subsection \<open>getIncompleteTexture (lines 559 to 619)\<close>

text \<open>
  On a miss the function constructs a texture of the class of the \<^verbatim>\<open>switch\<close> arm with
  \<^verbatim>\<open>new\<close>, around a back-end texture from \<^verbatim>\<open>createTexture\<close>, and stores it under the
  key. \<^verbatim>\<open>new\<close> yields an address no live object has: the model hands out
  \<open>nextAddress\<close>. The uploads of the one black texel change the new object only and are
  not recorded. \<^verbatim>\<open>UNREACHABLE()\<close> in the \<^verbatim>\<open>default\<close> arm ends the call where
  assertions are checked (the result is \<open>None\<close>) and otherwise falls through to the arm of
  \<^verbatim>\<open>GL_TEXTURE_2D\<close>, as the comment in the source says.
\<close>

definition isTextureKind :: "GLenum \<Rightarrow> bool" where
  "isTextureKind type =
     (type = GL_TEXTURE_2D \<or> type = GL_TEXTURE_CUBE_MAP \<or> type = GL_TEXTURE_3D \<or>
      type = GL_TEXTURE_2D_ARRAY)"

definition getIncompleteTexture ::
  "Environment \<Rightarrow> GLenum \<Rightarrow> RendererD3D \<Rightarrow> TexturePtr option \<times> RendererD3D" where
  "getIncompleteTexture env type r =
     (case mIncompleteTextures r type of
        Some t \<Rightarrow> (Some t, r)
      | None \<Rightarrow>
          if \<not> isTextureKind type \<and> assertionsEnabled env then (None, r)
          else
            (let kind = (if isTextureKind type then type else GL_TEXTURE_2D);
                 r1 = callVoid (CreateTexture kind) r;
                 t = nextAddress r1
             in (Some t,
                 r1\<lparr>nextAddress := Suc t,
                    createdTextures := (createdTextures r1)(t \<mapsto> kind),
                    mIncompleteTextures := (mIncompleteTextures r1)(type \<mapsto> t)\<rparr>)))"

subsection \<open>applyTextures (lines 370 to 463)\<close>

text \<open>
  \<^verbatim>\<open>std::binary_search\<close> over the first \<open>count\<close> elements of the array: the bisection
  of \<^verbatim>\<open>std::lower_bound\<close>, then one comparison.
\<close>

function lower_bound :: "'a::linorder list \<Rightarrow> nat \<Rightarrow> nat \<Rightarrow> 'a \<Rightarrow> nat" where
  "lower_bound xs first count v =
     (if 0 < count then
        (let half = count div 2; it = first + half
         in if xs ! it < v then lower_bound xs (it + 1) (count - (half + 1)) v
            else lower_bound xs first half v)
      else first)"
  by pat_completeness auto
termination
  by (relation "measure (\<lambda>(xs, first, count, v). count)") auto

declare lower_bound.simps [simp del]

definition binary_search :: "'a::linorder list \<Rightarrow> 'a \<Rightarrow> bool" where
  "binary_search xs v =
     (let first = lower_bound xs 0 (length xs) v
      in first \<noteq> length xs \<and> \<not> v < xs ! first)"

fun applyTexturesLoop ::
  "Environment \<Rightarrow> Data \<Rightarrow> SamplerType \<Rightarrow> 32 word list \<Rightarrow> nat list \<Rightarrow> RendererD3D \<Rightarrow>
   Result \<times> RendererD3D" where
  "applyTexturesLoop env data shaderType framebufferSerials [] r = (Returned NoError, r)"
| "applyTexturesLoop env data shaderType framebufferSerials (samplerIndex # rest) r =
     (let textureType = samplerTextureType (programBinary data) shaderType samplerIndex;
          textureUnit = samplerMapping (programBinary data) shaderType samplerIndex
      in if textureUnit \<noteq> - 1 then
           (let texture = samplerTexture (state data) textureUnit textureType;
                sampler = (case samplerObject (state data) textureUnit of
                             None \<Rightarrow> textureSamplerState data texture
                           | Some getState \<Rightarrow> getState (textureSamplerState data texture))
            in if isSamplerComplete data texture sampler \<and>
                  \<not> binary_search framebufferSerials (textureSerial data texture)
               then
                 (case call env (SetSamplerState shaderType samplerIndex texture sampler) r of
                    (error, r1) \<Rightarrow>
                      if isError error then (Returned error, r1)
                      else
                        (case call env (SetTexture shaderType samplerIndex (Some texture)) r1 of
                           (error, r2) \<Rightarrow>
                             if isError error then (Returned error, r2)
                             else applyTexturesLoop env data shaderType framebufferSerials rest r2))
               else
                 (case getIncompleteTexture env textureType r of
                    (None, r1) \<Rightarrow> (AssertFailed, r1)
                  | (Some incompleteTexture, r1) \<Rightarrow>
                      (case call env (SetTexture shaderType samplerIndex (Some incompleteTexture)) r1 of
                         (error, r2) \<Rightarrow>
                           if isError error then (Returned error, r2)
                           else applyTexturesLoop env data shaderType framebufferSerials rest r2)))
         else
           (case call env (SetTexture shaderType samplerIndex None) r of
              (error, r1) \<Rightarrow>
                if isError error then (Returned error, r1)
                else applyTexturesLoop env data shaderType framebufferSerials rest r1))"

fun clearTexturesLoop ::
  "Environment \<Rightarrow> SamplerType \<Rightarrow> nat list \<Rightarrow> RendererD3D \<Rightarrow> Result \<times> RendererD3D" where
  "clearTexturesLoop env shaderType [] r = (Returned NoError, r)"
| "clearTexturesLoop env shaderType (samplerIndex # rest) r =
     (case call env (SetTexture shaderType samplerIndex None) r of
        (error, r1) \<Rightarrow>
          if isError error then (Returned error, r1)
          else clearTexturesLoop env shaderType rest r1)"

definition applyTexturesFor ::
  "Environment \<Rightarrow> Data \<Rightarrow> SamplerType \<Rightarrow> 32 word list \<Rightarrow> RendererD3D \<Rightarrow> Result \<times> RendererD3D" where
  "applyTexturesFor env data shaderType framebufferSerials =
     (let samplerRange = usedSamplerRange (programBinary data) shaderType;
          samplerCount = (if shaderType = SAMPLER_PIXEL then maxTextureImageUnits (caps data)
                          else maxVertexTextureImageUnits (caps data))
      in andThen (applyTexturesLoop env data shaderType framebufferSerials [0..<samplerRange])
           (clearTexturesLoop env shaderType [samplerRange..<samplerCount]))"

definition applyTextures :: "Environment \<Rightarrow> Data \<Rightarrow> RendererD3D \<Rightarrow> Result \<times> RendererD3D" where
  "applyTextures env data =
     (let framebufferSerials = getBoundFramebufferTextureSerials data
      in andThen (applyTexturesFor env data SAMPLER_VERTEX framebufferSerials)
           (andThen (applyTexturesFor env data SAMPLER_PIXEL framebufferSerials) succeed))"

subsection \<open>applyUniformBuffers (lines 465 to 490)\<close>

definition unboundUniformBuffer :: gl_Error where
  "unboundUniformBuffer =
     \<lparr>errorCode = GL_INVALID_OPERATION,
      errorMessage = ''It is undefined behaviour to have a used but unbound uniform buffer.''\<rparr>"

fun collectUniformBuffers :: "Data \<Rightarrow> nat list \<Rightarrow> Buffer list \<Rightarrow> gl_Error + Buffer list" where
  "collectUniformBuffers data [] boundBuffers = Inr boundBuffers"
| "collectUniformBuffers data (uniformBlockIndex # rest) boundBuffers =
     (let blockBinding = uniformBlockBinding data uniformBlockIndex
      in if bufferId (indexedUniformBuffer (state data) blockBinding) = 0
         then Inl unboundUniformBuffer
         else collectUniformBuffers data rest
                (boundBuffers @ [indexedUniformBuffer (state data) blockBinding]))"

definition applyUniformBuffers ::
  "Environment \<Rightarrow> Data \<Rightarrow> RendererD3D \<Rightarrow> Result \<times> RendererD3D" where
  "applyUniformBuffers env data r =
     (case collectUniformBuffers data [0..<activeUniformBlockCount (programBinary data)] [] of
        Inl error \<Rightarrow> (Returned error, r)
      | Inr boundBuffers \<Rightarrow> step env (ApplyUniformBuffers boundBuffers) r)"

subsection \<open>skipDraw and markTransformFeedbackUsage (lines 492 to 529)\<close>

text \<open>Modelled from the spec: \<^verbatim>\<open>gl::IsTriangleMode\<close> is declared in
  \<^verbatim>\<open>common/utilities.h\<close>; it holds of the triangle-family modes.\<close>

definition IsTriangleMode :: "GLenum \<Rightarrow> bool" where
  "IsTriangleMode drawMode =
     (drawMode = GL_TRIANGLES \<or> drawMode = GL_TRIANGLE_FAN \<or> drawMode = GL_TRIANGLE_STRIP)"

definition skipDraw :: "Data \<Rightarrow> GLenum \<Rightarrow> RendererD3D \<Rightarrow> bool \<times> RendererD3D" where
  "skipDraw data drawMode r =
     (if drawMode = GL_POINTS then
        (if \<not> usesPointSize (programBinary data)
         then (True, r\<lparr>diagnostics := diagnostics r @
                          [''Point rendering without writing to gl_PointSize.'']\<rparr>)
         else (False, r))
      else if IsTriangleMode drawMode then
        (if cullFace (rasterizerState (state data)) \<and>
            cullMode (rasterizerState (state data)) = GL_FRONT_AND_BACK
         then (True, r)
         else (False, r))
      else (False, r))"

definition markTransformFeedbackUsage :: "Data \<Rightarrow> RendererD3D \<Rightarrow> RendererD3D" where
  "markTransformFeedbackUsage data =
     fold (\<lambda>i r. case indexedTransformFeedbackBuffer (state data) i of
                    None \<Rightarrow> r
                  | Some buffer \<Rightarrow> callVoid (MarkTransformFeedbackUsage buffer) r)
       [0..<maxTransformFeedbackSeparateAttributes (caps data)]"

subsection \<open>drawElements and drawArrays (lines 44 to 201)\<close>

text \<open>
  The two entry points run the steps in the order of the source; \<open>tfActive\<close> is what
  \<^verbatim>\<open>applyTransformFeedbackBuffers\<close> returned. In \<open>drawElements\<close> the index data
  starts from the range the caller passes, \<^verbatim>\<open>applyIndexBuffer\<close> rewrites it, and the
  vertex range is read from the result.
\<close>

definition drawElements ::
  "Environment \<Rightarrow> Data \<Rightarrow> GLenum \<Rightarrow> GLsizei \<Rightarrow> GLenum \<Rightarrow> nat \<Rightarrow> GLsizei \<Rightarrow> RangeUI \<Rightarrow>
   RendererD3D \<Rightarrow> Result \<times> RendererD3D" where
  "drawElements env data mode count type indices instances indexRange0 =
     ASSERT env (currentProgramId (state data) \<noteq> 0)
       (andThen (\<lambda>r. generateSwizzles env data (callVoid UpdateSamplerMapping r))
          (\<lambda>r. if \<not> primitiveTypeResult env (deviceCalls r) mode count
                then (Returned NoError, callVoid (ApplyPrimitiveType mode count) r)
                else
                  andThen (applyRenderTarget env data mode False)
                    (andThen (applyState env data mode)
                       (\<lambda>r. let request = ApplyIndexBuffer indices (elementArrayBuffer (state data))
                                             count mode type indexRange0;
                                 indexInfo = translatedIndices env (deviceCalls r) request;
                                 vertexCount = sint (rangeLength (indexRange indexInfo) + 1)
                             in andThen (step env request)
                                  (andThen (step env (ApplyVertexBuffer
                                                       (sint (rangeStart (indexRange indexInfo)))
                                                       vertexCount instances))
                                     (\<lambda>r. case applyTransformFeedbackBuffers data r of
                                             (tfActive, r1) \<Rightarrow>
                                               ASSERT env (\<not> tfActive)
                                                 (andThen (applyShaders env data tfActive)
                                                    (andThen (applyTextures env data)
                                                       (andThen (applyUniformBuffers env data)
                                                          (\<lambda>r. case skipDraw data mode r of
                                                                  (skip, r2) \<Rightarrow>
                                                                    if \<not> skip then
                                                                      andThen (step env (DrawElements mode count type indices
                                                                                           (elementArrayBuffer (state data)) indexInfo instances))
                                                                        succeed r2
                                                                    else (Returned NoError, r2)))))
                                                 r1))
                                  r))
                    (callVoid (ApplyPrimitiveType mode count) r)))"

definition drawArrays ::
  "Environment \<Rightarrow> Data \<Rightarrow> GLenum \<Rightarrow> GLint \<Rightarrow> GLsizei \<Rightarrow> GLsizei \<Rightarrow>
   RendererD3D \<Rightarrow> Result \<times> RendererD3D" where
  "drawArrays env data mode first count instances =
     ASSERT env (currentProgramId (state data) \<noteq> 0)
       (andThen (\<lambda>r. generateSwizzles env data (callVoid UpdateSamplerMapping r))
          (\<lambda>r. if \<not> primitiveTypeResult env (deviceCalls r) mode count
                then (Returned NoError, callVoid (ApplyPrimitiveType mode count) r)
                else
                  andThen (applyRenderTarget env data mode False)
                    (andThen (applyState env data mode)
                       (andThen (step env (ApplyVertexBuffer first count instances))
                          (\<lambda>r. case applyTransformFeedbackBuffers data r of
                                  (tfActive, r1) \<Rightarrow>
                                    andThen (applyShaders env data tfActive)
                                      (andThen (applyTextures env data)
                                         (andThen (applyUniformBuffers env data)
                                            (\<lambda>r. case skipDraw data mode r of
                                                    (skip, r2) \<Rightarrow>
                                                      if \<not> skip then
                                                        andThen (step env (DrawArrays mode count instances tfActive))
                                                          (\<lambda>r. succeed
                                                             (if tfActive then markTransformFeedbackUsage data r
                                                              else r))
                                                          r2
                                                      else (Returned NoError, r2))))
                                      r1)))
                    (callVoid (ApplyPrimitiveType mode count) r)))"

subsection \<open>Reading the record of calls\<close>

text \<open>The calls that return a \<^verbatim>\<open>gl::Error\<close>, which the caller tests.\<close>

fun fallible :: "Event \<Rightarrow> bool" where
  "fallible (GenerateSwizzle _) = True"
| "fallible (ApplyRenderTarget _) = True"
| "fallible (SetRasterizerState _) = True"
| "fallible (SetBlendState _ _ _ _) = True"
| "fallible (SetDepthStencilState _ _ _ _) = True"
| "fallible (ApplyIndexBuffer _ _ _ _ _ _) = True"
| "fallible (ApplyVertexBuffer _ _ _) = True"
| "fallible (ApplyShaders _ _) = True"
| "fallible ApplyUniforms = True"
| "fallible (SetSamplerState _ _ _ _) = True"
| "fallible (SetTexture _ _ _) = True"
| "fallible (ApplyUniformBuffers _) = True"
| "fallible (DrawArrays _ _ _ _) = True"
| "fallible (DrawElements _ _ _ _ _ _ _) = True"
| "fallible _ = False"

text \<open>
  The calls by what they are for: preparing the program and the textures, asking for the
  primitive type, applying state to the device, drawing, and marking the buffers that
  received transform feedback.
\<close>

datatype Phase = Preparing | AskingPrimitiveType | ApplyingState | Drawing | Marking

fun phase :: "Event \<Rightarrow> Phase" where
  "phase UpdateSamplerMapping = Preparing"
| "phase (GenerateSwizzle _) = Preparing"
| "phase (ApplyPrimitiveType _ _) = AskingPrimitiveType"
| "phase (DrawArrays _ _ _ _) = Drawing"
| "phase (DrawElements _ _ _ _ _ _ _) = Drawing"
| "phase (MarkTransformFeedbackUsage _) = Marking"
| "phase _ = ApplyingState"

definition isDraw :: "Event \<Rightarrow> bool" where
  "isDraw ev = (phase ev = Drawing)"

definition isStateChange :: "Event \<Rightarrow> bool" where
  "isStateChange ev = (phase ev = ApplyingState)"

text \<open>\<open>failsAt env tr ev\<close>: the call \<open>ev\<close>, made after the calls \<open>tr\<close>, returns
  an error. \<open>unfailing env tr evs\<close>: none of the calls \<open>evs\<close>, made one after the other
  after \<open>tr\<close>, does.\<close>

definition failsAt :: "Environment \<Rightarrow> Event list \<Rightarrow> Event \<Rightarrow> bool" where
  "failsAt env tr ev = (fallible ev \<and> isError (stepResult env tr ev))"

fun unfailing :: "Environment \<Rightarrow> Event list \<Rightarrow> Event list \<Rightarrow> bool" where
  "unfailing env tr [] = True"
| "unfailing env tr (ev # evs) = (\<not> failsAt env tr ev \<and> unfailing env (tr @ [ev]) evs)"

definition stoppedBy :: "Environment \<Rightarrow> Event list \<Rightarrow> Event list \<Rightarrow> gl_Error \<Rightarrow> bool" where
  "stoppedBy env tr evs e =
     (evs \<noteq> [] \<and> unfailing env tr (butlast evs) \<and> failsAt env (tr @ butlast evs) (last evs) \<and>
      e = stepResult env (tr @ butlast evs) (last evs))"

text \<open>
  A run of calls \<open>evs\<close> with result \<open>res\<close> is in order when no call failed, or when the
  last call failed, nothing was called after it and its error is the result. \<open>own\<close> holds
  of the errors the run may raise by itself.
\<close>

definition runOK ::
  "Environment \<Rightarrow> (gl_Error \<Rightarrow> bool) \<Rightarrow> Event list \<Rightarrow> Event list \<Rightarrow> Result \<Rightarrow> bool" where
  "runOK env own tr evs res =
     (case res of
        AssertFailed \<Rightarrow> unfailing env tr evs
      | Returned e \<Rightarrow>
          if isError e then (own e \<and> unfailing env tr evs) \<or> stoppedBy env tr evs e
          else unfailing env tr evs)"

definition tracks ::
  "Environment \<Rightarrow> (gl_Error \<Rightarrow> bool) \<Rightarrow> (Event \<Rightarrow> bool) \<Rightarrow>
   (RendererD3D \<Rightarrow> Result \<times> RendererD3D) \<Rightarrow> bool" where
  "tracks env own allowed f =
     (\<forall>r res r'. f r = (res, r') \<longrightarrow>
        (\<exists>evs. deviceCalls r' = deviceCalls r @ evs \<and> (\<forall>ev \<in> set evs. allowed ev) \<and>
               runOK env own (deviceCalls r) evs res))"

text \<open>Some active uniform block has no buffer at its binding point.\<close>

definition unboundBlock :: "Data \<Rightarrow> bool" where
  "unboundBlock data =
     (\<exists>uniformBlockIndex < activeUniformBlockCount (programBinary data).
        bufferId (indexedUniformBuffer (state data) (uniformBlockBinding data uniformBlockIndex)) = 0)"

definition ownError :: "Data \<Rightarrow> gl_Error \<Rightarrow> bool" where
  "ownError data e = (e = unboundUniformBuffer \<and> unboundBlock data)"

text \<open>The truth value \<^verbatim>\<open>skipDraw\<close> returns; it does not depend on the renderer.\<close>

definition skips :: "Data \<Rightarrow> GLenum \<Rightarrow> bool" where
  "skips data drawMode = fst (skipDraw data drawMode \<lparr>deviceCalls = [], mIncompleteTextures = Map.empty,
     createdTextures = Map.empty, nextAddress = 0, diagnostics = []\<rparr>)"

text \<open>
  The calls of a draw after the primitive type is known: calls that apply state, then
  nothing more, or, only if \<open>may\<close> holds and no call before failed, the draw call
  followed by marking calls. A result that is no error is \<open>NoError\<close> and implies
  \<open>passed\<close>.
\<close>

definition drawRun ::
  "Environment \<Rightarrow> Data \<Rightarrow> bool \<Rightarrow> bool \<Rightarrow> Event list \<Rightarrow> Event list \<Rightarrow> Result \<Rightarrow> bool" where
  "drawRun env data may passed tr evs res =
     (\<exists>pre post. evs = pre @ post \<and> (\<forall>ev \<in> set pre. phase ev = ApplyingState) \<and>
        (post = [] \<or>
         (may \<and> unfailing env tr pre \<and>
          (\<exists>d marks. post = d # marks \<and> phase d = Drawing \<and>
                      (\<forall>ev \<in> set marks. phase ev = Marking)))) \<and>
        (\<forall>e. res = Returned e \<and> \<not> isError e \<longrightarrow> passed \<and> e = NoError) \<and>
        runOK env (ownError data) tr evs res)"

definition draws ::
  "Environment \<Rightarrow> Data \<Rightarrow> bool \<Rightarrow> bool \<Rightarrow> (RendererD3D \<Rightarrow> Result \<times> RendererD3D) \<Rightarrow> bool" where
  "draws env data may passed f =
     (\<forall>r res r'. f r = (res, r') \<longrightarrow>
        (\<exists>evs. deviceCalls r' = deviceCalls r @ evs \<and>
               drawRun env data may passed (deviceCalls r) evs res))"

text \<open>
  The calls of a whole draw: preparing calls; then either the call ended there, with an
  error or a failed assertion, or no preparing call failed and the primitive type was
  asked for; when the answer was no, nothing follows and the result is success, otherwise
  the rest is a \<open>drawRun\<close>.
\<close>

definition pipelineRun ::
  "Environment \<Rightarrow> Data \<Rightarrow> GLenum \<Rightarrow> GLsizei \<Rightarrow> Event list \<Rightarrow> Event list \<Rightarrow> Result \<Rightarrow> bool" where
  "pipelineRun env data mode count tr evs res =
     (\<exists>prep rest. evs = prep @ rest \<and> (\<forall>ev \<in> set prep. phase ev = Preparing) \<and>
        runOK env (ownError data) tr evs res \<and>
        ((rest = [] \<and> (\<forall>e. res = Returned e \<longrightarrow> isError e)) \<or>
         (unfailing env tr prep \<and>
          (\<exists>body. rest = ApplyPrimitiveType mode count # body \<and>
             (if primitiveTypeResult env (tr @ prep) mode count
              then drawRun env data (\<not> skips data mode \<and> \<not> unboundBlock data)
                     (\<not> unboundBlock data) (tr @ prep @ [ApplyPrimitiveType mode count]) body res
              else body = [] \<and> res = Returned NoError)))))"

subsection \<open>The heap around the cache of incomplete textures\<close>

text \<open>The renderer as its constructor leaves it, with \<open>a\<close> the first free address.\<close>

definition newRenderer :: "nat \<Rightarrow> RendererD3D" where
  "newRenderer a =
     \<lparr>deviceCalls = [], mIncompleteTextures = Map.empty, createdTextures = Map.empty,
      nextAddress = a, diagnostics = []\<rparr>"

text \<open>
  What holds of the cache between calls: every key is a texture kind and maps to an
  object this renderer created as that kind; every object it created lies below
  \<open>nextAddress\<close> and is stored under some key.
\<close>

definition cacheInvariant :: "RendererD3D \<Rightarrow> bool" where
  "cacheInvariant r =
     ((\<forall>type p. mIncompleteTextures r type = Some p \<longrightarrow>
          isTextureKind type \<and> createdTextures r p = Some type) \<and>
      (\<forall>p kind. createdTextures r p = Some kind \<longrightarrow>
          p < nextAddress r \<and> mIncompleteTextures r kind = Some p))"

text \<open>The weaker fact that every build keeps: what the cache holds, this renderer created.\<close>

definition cacheOwned :: "RendererD3D \<Rightarrow> bool" where
  "cacheOwned r = (\<forall>type p. mIncompleteTextures r type = Some p \<longrightarrow> createdTextures r p \<noteq> None)"

text \<open>The textures of the client are live objects that this renderer did not create.\<close>

definition clientTextures :: "Data \<Rightarrow> RendererD3D \<Rightarrow> bool" where
  "clientTextures data r =
     (\<forall>unit type. samplerTexture (state data) unit type < nextAddress r \<and>
                  createdTextures r (samplerTexture (state data) unit type) = None)"

text \<open>
  A lifetime of the cache: the kinds that are looked up, one after the other, and what
  each lookup returns.
\<close>

fun lookups ::
  "Environment \<Rightarrow> GLenum list \<Rightarrow> RendererD3D \<Rightarrow> TexturePtr option list \<times> RendererD3D" where
  "lookups env [] r = ([], r)"
| "lookups env (type # types) r =
     (case getIncompleteTexture env type r of
        (t, r1) \<Rightarrow> (case lookups env types r1 of (ts, r2) \<Rightarrow> (t # ts, r2)))"

text \<open>The texture that \<^verbatim>\<open>applyTextures\<close> resolves for a sampler of the program.\<close>

definition resolvedTexture :: "Data \<Rightarrow> SamplerType \<Rightarrow> nat \<Rightarrow> TexturePtr" where
  "resolvedTexture data shaderType samplerIndex =
     samplerTexture (state data)
       (samplerMapping (programBinary data) shaderType samplerIndex)
       (samplerTextureType (programBinary data) shaderType samplerIndex)"

subsection \<open>A concrete scene\<close>

text \<open>
  One program with two pixel samplers on units 0 and 1 and one uniform block bound to
  point 3; a framebuffer of four samples whose two colour attachments are levels of the
  texture at address 10, which is also bound to unit 0; a back end that never fails,
  \<open>failingShaders\<close> that fails in \<^verbatim>\<open>applyShaders\<close>.
\<close>

definition sceneFramebuffer :: Framebuffer where
  "sceneFramebuffer =
     \<lparr>colorbuffers = [Some (TextureAttachment 10), Some (TextureAttachment 10)],
      depthOrStencilbuffer = Some (RenderbufferAttachment 1),
      fbSamples = 4, fbCompleteness = GL_FRAMEBUFFER_COMPLETE\<rparr>"

definition sceneState :: State where
  "sceneState =
     \<lparr>currentProgramId = 1,
      samplerTexture = (\<lambda>unit type. if unit = 0 then 10 else 11),
      samplerObject = (\<lambda>unit. None),
      sampleCoverageEnabled = True,
      sampleCoverageValue = Finite (1 / 2),
      sampleCoverageInvert = False,
      rasterizerState = \<lparr>cullFace = False, cullMode = 0x0405, frontFace = GL_CCW,
                          rasterizerDiscard = False, pointDrawMode = False, multiSample = False\<rparr>,
      blendState = 0, blendColor = 0, depthStencilState = 0, stencilRef = 0, stencilBackRef = 0,
      viewport = \<lparr>rectX = 0, rectY = 0, rectWidth = 64, rectHeight = 64\<rparr>,
      depthNear = Finite 0, depthFar = Finite 1,
      scissor = \<lparr>rectX = 0, rectY = 0, rectWidth = 64, rectHeight = 64\<rparr>,
      scissorTestEnabled = False,
      indexedUniformBuffer = (\<lambda>binding. \<lparr>bufferAddress = 20, bufferId = 5\<rparr>),
      indexedTransformFeedbackBuffer = (\<lambda>i. None),
      currentTransformFeedback = None,
      drawFramebuffer = sceneFramebuffer,
      elementArrayBuffer = Some 30\<rparr>"

definition sceneData :: Data where
  "sceneData =
     \<lparr>state = sceneState,
      programBinary = \<lparr>usedSamplerRange = (\<lambda>type. if type = SAMPLER_PIXEL then 2 else 0),
                        samplerTextureType = (\<lambda>type i. GL_TEXTURE_2D),
                        samplerMapping = (\<lambda>type i. int i),
                        usesPointSize = False,
                        activeUniformBlockCount = 1\<rparr>,
      uniformBlockBinding = (\<lambda>uniformBlockIndex. 3),
      caps = \<lparr>maxTextureImageUnits = 3, maxVertexTextureImageUnits = 1,
               maxTransformFeedbackSeparateAttributes = 1\<rparr>,
      textureSerial = (\<lambda>texture. if texture = 10 then 7 else 8),
      textureSamplerState = (\<lambda>texture. \<lparr>swizzleRequired = (texture = 11), samplingParameters = []\<rparr>),
      isSamplerComplete = (\<lambda>texture sampler. True)\<rparr>"

text \<open>The same scene with nothing bound to the uniform buffer binding points.\<close>

definition unboundScene :: Data where
  "unboundScene =
     sceneData\<lparr>state := sceneState\<lparr>indexedUniformBuffer :=
                                        (\<lambda>binding. \<lparr>bufferAddress = 0, bufferId = 0\<rparr>)\<rparr>\<rparr>"

definition deviceLost :: gl_Error where
  "deviceLost = \<lparr>errorCode = 0x0505, errorMessage = ''device lost''\<rparr>"

definition willingBackend :: Environment where
  "willingBackend =
     \<lparr>stepResult = (\<lambda>tr ev. NoError),
      primitiveTypeResult = (\<lambda>tr mode count. 0 < count),
      translatedIndices = (\<lambda>tr ev. \<lparr>indexRange = \<lparr>rangeStart = 0, rangeEnd = 2\<rparr>, translation = 0\<rparr>),
      assertionsEnabled = True\<rparr>"

definition failingShaders :: Environment where
  "failingShaders =
     willingBackend\<lparr>stepResult := (\<lambda>tr ev. case ev of ApplyShaders discard tf \<Rightarrow> deviceLost
                                                  | _ \<Rightarrow> NoError)\<rparr>"

text \<open>A back end that fails in the draw call itself.\<close>

definition failingDraw :: Environment where
  "failingDraw =
     willingBackend\<lparr>stepResult := (\<lambda>tr ev. case ev of DrawArrays mode count instances tf \<Rightarrow> deviceLost
                                                  | DrawElements mode count type indices buffer translated instances \<Rightarrow> deviceLost
                                                  | _ \<Rightarrow> NoError)\<rparr>"

lemma excess_bits_le: "n < 2 ^ (24 + k) \<Longrightarrow> excess_bits n \<le> k"
proof (induction k arbitrary: n)
  case 0
  then show ?case by (simp add: excess_bits.simps)
next
  case (Suc k)
  have e: "(2::int) ^ (24 + Suc k) = 2 * 2 ^ (24 + k)"
    by (simp only: power_add power_Suc mult_ac)
  have "n < 2 * 2 ^ (24 + k)" using Suc.prems unfolding e .
  then have "n div 2 < 2 ^ (24 + k)" by linarith
  then have "excess_bits (n div 2) \<le> k" by (rule Suc.IH)
  then show ?case by (subst excess_bits.simps) simp
qed




lemma round_ties_even_int [simp]: "round_ties_even (of_int n) = n"
  by (simp add: round_ties_even_def)








lemma round_mag_scaled:
  "round_mag x * 2 ^ 149 =
     of_int (round_ties_even (x * 2 ^ 149 / 2 ^ excess_bits \<lfloor>x * 2 ^ 149\<rfloor>)) *
       2 ^ excess_bits \<lfloor>x * 2 ^ 149\<rfloor>"
  by (simp add: round_mag_def Let_def)




lemma round_mag_exact:
  assumes N: "of_int N = x * 2 ^ k" and small: "N < 2 ^ 24" and k: "k \<le> 149"
  shows "round_mag x = x"
proof -
  define E :: nat where "E = 149"
  have kE: "k \<le> E" using k by (simp add: E_def)
  define y where "y = x * 2 ^ E"
  define kk where "kk = excess_bits \<lfloor>y\<rfloor>"
  have rm: "round_mag x * 2 ^ E = of_int (round_ties_even (y / 2 ^ kk)) * 2 ^ kk"
    unfolding E_def y_def kk_def by (rule round_mag_scaled)
  have x: "x = of_int N / 2 ^ k" using N by (simp add: field_simps)
  have "(2::rat) ^ E = 2 ^ k * 2 ^ (E - k)" using kE by (simp flip: power_add)
  then have y: "y = of_int (N * 2 ^ (E - k))" by (simp add: x y_def)
  then have fl: "\<lfloor>y\<rfloor> = N * 2 ^ (E - k)" by (simp only: floor_of_int)
  have "N * 2 ^ (E - k) < 2 ^ 24 * 2 ^ (E - k)" using small by simp
  then have "\<lfloor>y\<rfloor> < 2 ^ (24 + (E - k))" by (simp only: fl power_add)
  then have kk: "kk \<le> E - k" unfolding kk_def by (rule excess_bits_le)
  then have pw: "(2::int) ^ (E - k) = 2 ^ (E - k - kk) * 2 ^ kk" by (simp flip: power_add)
  have "y = of_int (N * 2 ^ (E - k - kk) * 2 ^ kk)" by (simp only: y pw mult.assoc)
  also have "\<dots> = of_int (N * 2 ^ (E - k - kk)) * 2 ^ kk" by simp
  finally have q: "y / 2 ^ kk = of_int (N * 2 ^ (E - k - kk))" by simp
  then have "round_ties_even (y / 2 ^ kk) = N * 2 ^ (E - k - kk)"
    by (simp only: round_ties_even_int)
  then have "(of_int (round_ties_even (y / 2 ^ kk)) :: rat) * 2 ^ kk = y"
    using q by (simp add: field_simps)
  then have "round_mag x * 2 ^ E = x * 2 ^ E" by (simp only: rm y_def)
  then show ?thesis by simp
qed



lemma round32_not_NaN [simp]: "round32 x \<noteq> NaN"
  by (simp add: round32_def Let_def)


lemma round32_exact:
  assumes "of_int N = \<bar>x\<bar> * 2 ^ k" "N < 2 ^ 24" "k \<le> 149"
  shows "round32 x = Finite x"
proof -
  have m: "round_mag \<bar>x\<bar> = \<bar>x\<bar>" using assms by (rule round_mag_exact)
  have "\<bar>x\<bar> * 1 \<le> \<bar>x\<bar> * 2 ^ k" by (intro mult_left_mono) simp_all
  also have "\<dots> = of_int N" using assms(1) by simp
  also have "\<dots> < of_int (2 ^ 24)" using assms(2) by (simp only: of_int_less_iff)
  finally have "\<bar>x\<bar> < 2 ^ 24" by simp
  also have "(2::rat) ^ 24 < 2 ^ 128" by simp
  finally have "\<not> 2 ^ 128 \<le> \<bar>x\<bar>" by simp
  then show ?thesis by (simp add: round32_def m del: abs_if) (simp add: abs_if)
qed

lemma round32_dyadic:
  "of_int \<lfloor>\<bar>x\<bar> * 128\<rfloor> = \<bar>x\<bar> * 128 \<Longrightarrow> \<bar>x\<bar> * 128 < 16777216 \<Longrightarrow> round32 x = Finite x"
proof -
  assume a: "of_int \<lfloor>\<bar>x\<bar> * 128\<rfloor> = \<bar>x\<bar> * 128" and b: "\<bar>x\<bar> * 128 < 16777216"
  have "of_int \<lfloor>\<bar>x\<bar> * 128\<rfloor> = \<bar>x\<bar> * 2 ^ 7" using a by simp
  moreover have "\<lfloor>\<bar>x\<bar> * 128\<rfloor> < 2 ^ 24" using b by (simp add: floor_less_iff)
  ultimately show ?thesis by (rule round32_exact) simp
qed

lemma float_of_int_exact: "\<bar>n\<bar> < 2 ^ 24 \<Longrightarrow> float_of_int n = Finite (of_int n)"
proof -
  assume "\<bar>n\<bar> < 2 ^ 24"
  moreover have "of_int \<bar>n\<bar> = \<bar>rat_of_int n\<bar> * 2 ^ 0" by simp
  ultimately show ?thesis unfolding float_of_int_def by (intro round32_exact[where k = 0 and N = "\<bar>n\<bar>"]) simp_all
qed


lemma fge_not_NaN: "fge a b \<Longrightarrow> a \<noteq> NaN \<and> b \<noteq> NaN"
  by (cases a; cases b) auto












lemma bit_shift_in_Suc:
  fixes m :: "32 word"
  shows "bit (push_bit 1 m) (Suc q) \<Longrightarrow> bit m q"
    and "bit (push_bit 1 m OR 1) (Suc q) \<Longrightarrow> bit m q"
  unfolding bit_or_iff bit_push_bit_iff bit_1_iff by simp_all

lemma coverageLoop_high_bits:
  "bit (coverageLoop c S i t m) n \<Longrightarrow> nat (S - i) \<le> n \<Longrightarrow> bit m (n - nat (S - i))"
proof (induction c S i t m arbitrary: n rule: coverageLoop.induct)
  case (1 c S i t m)
  show ?case
  proof (cases "i < S")
    case False
    with "1.prems" show ?thesis by (simp add: coverageLoop.simps)
  next
    case True
    then have r: "nat (S - i) = Suc (nat (S - (i + 1)))" by simp
    with "1.prems" have n: "nat (S - (i + 1)) \<le> n" "n - nat (S - (i + 1)) = Suc (n - nat (S - i))"
      by simp_all
    show ?thesis
    proof (cases "fge (fmul (float_of_int (i + 1)) c) t")
      case hit: True
      with True "1.prems" have "bit (coverageLoop c S (i + 1) (fadd t (Finite 1)) (push_bit 1 m OR 1)) n"
        by (simp add: coverageLoop.simps)
      then have "bit (push_bit 1 m OR 1 :: 32 word) (n - nat (S - (i + 1)))"
        using n(1) True hit by (rule "1.IH"(1)[rotated 2])
      then show ?thesis unfolding n(2) by (rule bit_shift_in_Suc(2))
    next
      case miss: False
      with True "1.prems" have "bit (coverageLoop c S (i + 1) t (push_bit 1 m)) n"
        by (simp add: coverageLoop.simps)
      then have "bit (push_bit 1 m :: 32 word) (n - nat (S - (i + 1)))"
        using n(1) True miss by (rule "1.IH"(2)[rotated 2])
      then show ?thesis unfolding n(2) by (rule bit_shift_in_Suc(1))
    qed
  qed
qed

lemma coverageLoop_fold:
  "0 \<le> i \<Longrightarrow> coverageLoop c S i t m = fst (fold (ladder_step c) [nat i..<nat S] (m, t))"
proof (induction c S i t m rule: coverageLoop.induct)
  case (1 c S i t m)
  show ?case
  proof (cases "i < S")
    case False
    then show ?thesis using "1.prems" by (simp add: coverageLoop.simps)
  next
    case True
    with "1.prems" have u: "[nat i..<nat S] = nat i # [nat (i + 1)..<nat S]"
      by (simp add: upt_conv_Cons nat_add_distrib)
    have idx: "int (nat i) + 1 = i + 1" using "1.prems" by simp
    show ?thesis
    proof (cases "fge (fmul (float_of_int (i + 1)) c) t")
      case hit: True
      have "coverageLoop c S (i + 1) (fadd t (Finite 1)) (push_bit 1 m OR 1) =
            fst (fold (ladder_step c) [nat (i + 1)..<nat S] (push_bit 1 m OR 1, fadd t (Finite 1)))"
        using True hit "1.prems" by (intro "1.IH"(1)) simp_all
      with True hit "1.prems" show ?thesis
        by (subst coverageLoop.simps) (simp add: u ladder_step_def idx del: upt_Suc)
    next
      case miss: False
      have "coverageLoop c S (i + 1) t (push_bit 1 m) =
            fst (fold (ladder_step c) [nat (i + 1)..<nat S] (push_bit 1 m, t))"
        using True miss "1.prems" by (intro "1.IH"(2)) simp_all
      with True miss "1.prems" show ?thesis
        by (subst coverageLoop.simps) (simp add: u ladder_step_def idx del: upt_Suc)
    qed
  qed
qed

lemma round32_zero [simp]: "round32 0 = Finite 0"
  using round32_exact[of 0 0 0] by simp

lemma fmul_zero_not_ge_half: "\<not> fge (fmul x (Finite 0)) (Finite (1 / 2))"
  by (cases x) auto

lemma ladder_fold_zero:
  "fold (ladder_step (Finite 0)) xs (0, Finite (1 / 2)) = (0, Finite (1 / 2))"
  by (induction xs) (simp_all add: ladder_step_def fmul_zero_not_ge_half)

lemma ladder_spec_zero: "ladder_spec S (Finite 0) = 0"
  by (simp add: ladder_spec_def ladder_fold_zero)

lemma fneq_zero: "\<not> fneq c (Finite 0) \<Longrightarrow> c = Finite 0"
  by (cases c) auto

lemma sampleMask_ladder:
  "sampleMask True c invert S = (if invert then NOT (ladder_spec (nat S) c) else ladder_spec (nat S) c)"
proof (cases "fneq c (Finite 0)")
  case True
  then show ?thesis
    using coverageLoop_fold[of 0 c S "Finite (1 / 2)" 0]
    by (simp add: sampleMask_def ladder_spec_def)
next
  case False
  then have "c = Finite 0" by (rule fneq_zero)
  then show ?thesis by (simp add: sampleMask_def ladder_spec_zero)
qed













lemma popcount_0 [simp]: "popcount 0 = 0"
  by (simp add: popcount_def)


subsection \<open>Runs of calls\<close>

lemma unfailing_append:
  "unfailing env tr (xs @ ys) = (unfailing env tr xs \<and> unfailing env (tr @ xs) ys)"
  by (induction xs arbitrary: tr) simp_all

lemma unfailing_nth:
  "unfailing env tr evs \<Longrightarrow> i < length evs \<Longrightarrow> \<not> failsAt env (tr @ take i evs) (evs ! i)"
proof (induction evs arbitrary: tr i)
  case Nil
  then show ?case by simp
next
  case (Cons ev evs)
  show ?case
  proof (cases i)
    case 0
    with Cons.prems show ?thesis by simp
  next
    case (Suc j)
    with Cons.prems have "\<not> failsAt env ((tr @ [ev]) @ take j evs) (evs ! j)"
      by (intro Cons.IH) simp_all
    with Suc show ?thesis by simp
  qed
qed

lemma unfailing_void: "\<forall>ev \<in> set evs. \<not> fallible ev \<Longrightarrow> unfailing env tr evs"
  by (induction evs arbitrary: tr) (simp_all add: failsAt_def)

lemma stoppedBy_append:
  "unfailing env tr xs \<Longrightarrow> stoppedBy env (tr @ xs) ys e \<Longrightarrow> stoppedBy env tr (xs @ ys) e"
  by (auto simp: stoppedBy_def butlast_append unfailing_append)

lemma stoppedBy_last:
  assumes "stoppedBy env tr evs e" "i < length evs" "failsAt env (tr @ take i evs) (evs ! i)"
  shows "Suc i = length evs"
proof (rule ccontr)
  assume "Suc i \<noteq> length evs"
  with assms(2) have i: "i < length (butlast evs)" by simp
  from assms(1) have "unfailing env tr (butlast evs)" by (simp add: stoppedBy_def)
  then have "\<not> failsAt env (tr @ take i (butlast evs)) (butlast evs ! i)"
    using i by (rule unfailing_nth)
  moreover have "take i (butlast evs) = take i evs" using i by (simp add: take_butlast)
  moreover have "butlast evs ! i = evs ! i" using i by (simp add: nth_butlast)
  ultimately show False using assms(3) by simp
qed

lemma runOK_append:
  "unfailing env tr xs \<Longrightarrow> runOK env own (tr @ xs) ys res \<Longrightarrow> runOK env own tr (xs @ ys) res"
  by (auto simp: runOK_def unfailing_append stoppedBy_append split: Result.splits if_splits)

lemma runOK_unfailing:
  "runOK env own tr evs (Returned e) \<Longrightarrow> \<not> isError e \<Longrightarrow> unfailing env tr evs"
  by (simp add: runOK_def)

lemma tracksI:
  assumes "\<And>r res r'. f r = (res, r') \<Longrightarrow>
     \<exists>evs. deviceCalls r' = deviceCalls r @ evs \<and> (\<forall>ev \<in> set evs. allowed ev) \<and>
           runOK env own (deviceCalls r) evs res"
  shows "tracks env own allowed f"
  using assms unfolding tracks_def by blast

lemma tracksD:
  assumes "tracks env own allowed f" "f r = (res, r')"
  obtains evs where "deviceCalls r' = deviceCalls r @ evs" "\<forall>ev \<in> set evs. allowed ev"
    "runOK env own (deviceCalls r) evs res"
  using assms unfolding tracks_def by blast

lemma tracks_weaken:
  assumes "tracks env own P f" "\<And>ev. P ev \<Longrightarrow> Q ev" "\<And>e. own e \<Longrightarrow> own' e"
  shows "tracks env own' Q f"
proof (rule tracksI)
  fix r res r' assume "f r = (res, r')"
  with assms(1) obtain evs where e: "deviceCalls r' = deviceCalls r @ evs" "\<forall>ev \<in> set evs. P ev"
    "runOK env own (deviceCalls r) evs res" by (rule tracksD)
  from e(3) assms(3) have "runOK env own' (deviceCalls r) evs res"
    by (auto simp: runOK_def split: Result.splits if_splits)
  with e(1,2) assms(2) show "\<exists>evs. deviceCalls r' = deviceCalls r @ evs \<and> (\<forall>ev \<in> set evs. Q ev) \<and>
           runOK env own' (deviceCalls r) evs res" by blast
qed

lemma tracks_succeed: "tracks env own allowed succeed"
  by (rule tracksI) (auto simp: succeed_def runOK_def isError_def NoError_def)

lemma tracks_return: "\<not> isError e \<Longrightarrow> tracks env own allowed (\<lambda>r. (Returned e, r))"
  by (rule tracksI) (auto simp: runOK_def)

lemma tracks_step:
  assumes "fallible ev" "allowed ev"
  shows "tracks env own allowed (step env ev)"
proof (rule tracksI)
  fix r res r' assume "step env ev r = (res, r')"
  then have "res = Returned (stepResult env (deviceCalls r) ev)" "deviceCalls r' = deviceCalls r @ [ev]"
    by (auto simp: step_def call_def)
  moreover have "runOK env own (deviceCalls r) [ev] (Returned (stepResult env (deviceCalls r) ev))"
    using assms(1) by (simp add: runOK_def stoppedBy_def failsAt_def)
  ultimately show "\<exists>evs. deviceCalls r' = deviceCalls r @ evs \<and> (\<forall>ev \<in> set evs. allowed ev) \<and>
           runOK env own (deviceCalls r) evs res"
    using assms(2) by auto
qed

lemma tracks_andThen:
  assumes f: "tracks env own allowed f" and g: "tracks env own allowed g"
  shows "tracks env own allowed (andThen f g)"
proof (rule tracksI)
  fix r res r' assume a: "andThen f g r = (res, r')"
  obtain res1 r1 where f1: "f r = (res1, r1)" by (cases "f r")
  from f f1 obtain evs1 where e1: "deviceCalls r1 = deviceCalls r @ evs1" "\<forall>ev \<in> set evs1. allowed ev"
    "runOK env own (deviceCalls r) evs1 res1" by (rule tracksD)
  show "\<exists>evs. deviceCalls r' = deviceCalls r @ evs \<and> (\<forall>ev \<in> set evs. allowed ev) \<and>
           runOK env own (deviceCalls r) evs res"
  proof (cases "\<exists>e. res1 = Returned e \<and> \<not> isError e")
    case True
    then obtain e where e: "res1 = Returned e" "\<not> isError e" by blast
    with a f1 have g2: "g r1 = (res, r')" by (simp add: andThen_def)
    from g g2 obtain evs2 where e2: "deviceCalls r' = deviceCalls r1 @ evs2" "\<forall>ev \<in> set evs2. allowed ev"
      "runOK env own (deviceCalls r1) evs2 res" by (rule tracksD)
    from e1(3) e have "unfailing env (deviceCalls r) evs1" by (simp add: runOK_unfailing)
    with e2(3) have "runOK env own (deviceCalls r) (evs1 @ evs2) res"
      unfolding e1(1) by (rule runOK_append[rotated])
    with e1 e2 show ?thesis by (intro exI[of _ "evs1 @ evs2"]) auto
  next
    case False
    with a f1 have "res = res1" "r' = r1"
      by (auto simp: andThen_def split: Result.splits if_splits)
    with e1 show ?thesis by blast
  qed
qed

lemma tracks_ASSERT:
  assumes "tracks env own allowed k"
  shows "tracks env own allowed (ASSERT env cond k)"
proof (rule tracksI)
  fix r res r' assume a: "ASSERT env cond k r = (res, r')"
  show "\<exists>evs. deviceCalls r' = deviceCalls r @ evs \<and> (\<forall>ev \<in> set evs. allowed ev) \<and>
           runOK env own (deviceCalls r) evs res"
  proof (cases "assertionsEnabled env \<and> \<not> cond")
    case True
    with a have "res = AssertFailed" "r' = r" by (auto simp: ASSERT_def)
    then show ?thesis by (intro exI[of _ "[]"]) (simp add: runOK_def)
  next
    case False
    with a have "k r = (res, r')" by (auto simp: ASSERT_def)
    with assms show ?thesis by (rule tracksD) blast
  qed
qed

lemma tracks_after_void:
  assumes v: "\<And>r. \<exists>evs. deviceCalls (v r) = deviceCalls r @ evs \<and>
                         (\<forall>ev \<in> set evs. allowed ev \<and> \<not> fallible ev)"
    and f: "tracks env own allowed f"
  shows "tracks env own allowed (\<lambda>r. f (v r))"
proof (rule tracksI)
  fix r res r' assume a: "f (v r) = (res, r')"
  from v obtain evs1 where e1: "deviceCalls (v r) = deviceCalls r @ evs1"
    "\<forall>ev \<in> set evs1. allowed ev \<and> \<not> fallible ev" by blast
  from f a obtain evs2 where e2: "deviceCalls r' = deviceCalls (v r) @ evs2" "\<forall>ev \<in> set evs2. allowed ev"
    "runOK env own (deviceCalls (v r)) evs2 res" by (rule tracksD)
  have "unfailing env (deviceCalls r) evs1" using e1(2) by (intro unfailing_void) blast
  with e2(3) have "runOK env own (deviceCalls r) (evs1 @ evs2) res"
    unfolding e1(1) by (rule runOK_append[rotated])
  with e1 e2 show "\<exists>evs. deviceCalls r' = deviceCalls r @ evs \<and> (\<forall>ev \<in> set evs. allowed ev) \<and>
           runOK env own (deviceCalls r) evs res"
    by (intro exI[of _ "evs1 @ evs2"]) auto
qed

lemma callVoid_appends:
  "allowed ev \<Longrightarrow> \<not> fallible ev \<Longrightarrow>
   \<exists>evs. deviceCalls (callVoid ev r) = deviceCalls r @ evs \<and> (\<forall>ev \<in> set evs. allowed ev \<and> \<not> fallible ev)"
  by (intro exI[of _ "[ev]"]) (simp add: callVoid_def)

lemma call_andThen:
  "(case call env ev r of (error, r1) \<Rightarrow> if isError error then (Returned error, r1) else k r1) =
   andThen (step env ev) k r"
  by (simp add: andThen_def step_def split: prod.splits)

subsection \<open>The calls of each step\<close>

lemma generateSwizzlesLoop_Cons:
  "generateSwizzlesLoop env data type (i # rest) =
     (if samplerMapping (programBinary data) type i \<noteq> - 1 \<and>
         swizzleRequired (textureSamplerState data
           (samplerTexture (state data) (samplerMapping (programBinary data) type i)
              (samplerTextureType (programBinary data) type i)))
      then andThen (step env (GenerateSwizzle
             (samplerTexture (state data) (samplerMapping (programBinary data) type i)
                (samplerTextureType (programBinary data) type i))))
             (generateSwizzlesLoop env data type rest)
      else generateSwizzlesLoop env data type rest)"
  by (rule ext) (simp add: Let_def call_andThen)

lemma generateSwizzlesLoop_Nil: "generateSwizzlesLoop env data type [] = succeed"
  by (rule ext) (simp add: succeed_def)

lemma tracks_generateSwizzlesLoop:
  "tracks env own (\<lambda>ev. phase ev = Preparing) (generateSwizzlesLoop env data type is)"
proof (induction "is")
  case Nil
  show ?case unfolding generateSwizzlesLoop_Nil by (rule tracks_succeed)
next
  case (Cons i rest)
  show ?case unfolding generateSwizzlesLoop_Cons
    by (auto intro!: tracks_andThen tracks_step Cons)
qed

lemma tracks_generateSwizzles:
  "tracks env own (\<lambda>ev. phase ev = Preparing) (generateSwizzles env data)"
  unfolding generateSwizzles_def generateSwizzlesFor_def
  by (intro tracks_andThen tracks_generateSwizzlesLoop tracks_succeed)

lemma tracks_applyRenderTarget:
  "tracks env own (\<lambda>ev. phase ev = ApplyingState) (applyRenderTarget env data drawMode ignoreViewport)"
  unfolding applyRenderTarget_def Let_def
proof (intro tracks_ASSERT tracks_andThen tracks_step)
  let ?v = "\<lambda>r. callVoid (SetScissorRectangle (scissor (state data)) (scissorTestEnabled (state data)))
              (callVoid (SetViewport (viewport (state data)) (depthNear (state data))
                 (depthFar (state data)) drawMode (frontFace (rasterizerState (state data)))
                 ignoreViewport) r)"
  have "\<exists>evs. deviceCalls (?v r) = deviceCalls r @ evs \<and>
          (\<forall>ev \<in> set evs. phase ev = ApplyingState \<and> \<not> fallible ev)" for r
    by (simp add: callVoid_def)
  then show "tracks env own (\<lambda>ev. phase ev = ApplyingState) (\<lambda>r. succeed (?v r))"
    by (rule tracks_after_void) (rule tracks_succeed)
qed simp_all

lemma tracks_applyState:
  "tracks env own (\<lambda>ev. phase ev = ApplyingState) (applyState env data drawMode)"
  unfolding applyState_def Let_def
  by (intro tracks_andThen tracks_step tracks_succeed) simp_all

lemma tracks_applyShaders:
  "tracks env own (\<lambda>ev. phase ev = ApplyingState) (applyShaders env data tfActive)"
  unfolding applyShaders_def
  by (intro tracks_andThen tracks_step) simp_all

lemma getIncompleteTexture_calls:
  assumes "getIncompleteTexture env type r = (x, r1)"
  shows "\<exists>evs. deviceCalls r1 = deviceCalls r @ evs \<and>
           (\<forall>ev \<in> set evs. phase ev = ApplyingState \<and> \<not> fallible ev) \<and> (x = None \<longrightarrow> r1 = r)"
  using assms
  by (auto simp: getIncompleteTexture_def callVoid_def Let_def split: option.splits if_splits)

lemma tracks_withIncompleteTexture:
  assumes "\<And>t. tracks env own (\<lambda>ev. phase ev = ApplyingState) (k t)"
  shows "tracks env own (\<lambda>ev. phase ev = ApplyingState)
           (\<lambda>r. case getIncompleteTexture env type r of
                   (None, r1) \<Rightarrow> (AssertFailed, r1)
                 | (Some t, r1) \<Rightarrow> k t r1)"
proof (rule tracksI)
  fix r res r'
  assume a: "(case getIncompleteTexture env type r of
                   (None, r1) \<Rightarrow> (AssertFailed, r1)
                 | (Some t, r1) \<Rightarrow> k t r1) = (res, r')"
  obtain x r1 where g: "getIncompleteTexture env type r = (x, r1)"
    by (cases "getIncompleteTexture env type r")
  from getIncompleteTexture_calls[OF g] obtain evs1 where
    e1: "deviceCalls r1 = deviceCalls r @ evs1"
      "\<forall>ev \<in> set evs1. phase ev = ApplyingState \<and> \<not> fallible ev" "x = None \<longrightarrow> r1 = r"
    by blast
  show "\<exists>evs. deviceCalls r' = deviceCalls r @ evs \<and> (\<forall>ev \<in> set evs. phase ev = ApplyingState) \<and>
           runOK env own (deviceCalls r) evs res"
  proof (cases x)
    case None
    with a g e1(3) have "res = AssertFailed" "r' = r" by auto
    then show ?thesis by (intro exI[of _ "[]"]) (simp add: runOK_def)
  next
    case (Some t)
    with a g have "k t r1 = (res, r')" by simp
    with assms obtain evs2 where e2: "deviceCalls r' = deviceCalls r1 @ evs2"
      "\<forall>ev \<in> set evs2. phase ev = ApplyingState" "runOK env own (deviceCalls r1) evs2 res"
      by (rule tracksD)
    have "unfailing env (deviceCalls r) evs1" using e1(2) by (intro unfailing_void) blast
    with e2(3) have "runOK env own (deviceCalls r) (evs1 @ evs2) res"
      unfolding e1(1) by (rule runOK_append[rotated])
    with e1 e2 show ?thesis by (intro exI[of _ "evs1 @ evs2"]) auto
  qed
qed

lemma applyTexturesLoop_Nil: "applyTexturesLoop env data shaderType serials [] = succeed"
  by (rule ext) (simp add: succeed_def)

lemma applyTexturesLoop_Cons:
  "applyTexturesLoop env data shaderType serials (samplerIndex # rest) =
     (let textureType = samplerTextureType (programBinary data) shaderType samplerIndex;
          textureUnit = samplerMapping (programBinary data) shaderType samplerIndex;
          texture = samplerTexture (state data) textureUnit textureType;
          sampler = (case samplerObject (state data) textureUnit of
                       None \<Rightarrow> textureSamplerState data texture
                     | Some getState \<Rightarrow> getState (textureSamplerState data texture))
      in if textureUnit \<noteq> - 1 then
           if isSamplerComplete data texture sampler \<and>
              \<not> binary_search serials (textureSerial data texture)
           then andThen (step env (SetSamplerState shaderType samplerIndex texture sampler))
                  (andThen (step env (SetTexture shaderType samplerIndex (Some texture)))
                     (applyTexturesLoop env data shaderType serials rest))
           else (\<lambda>r. case getIncompleteTexture env textureType r of
                        (None, r1) \<Rightarrow> (AssertFailed, r1)
                      | (Some incompleteTexture, r1) \<Rightarrow>
                          andThen (step env (SetTexture shaderType samplerIndex (Some incompleteTexture)))
                            (applyTexturesLoop env data shaderType serials rest) r1)
         else andThen (step env (SetTexture shaderType samplerIndex None))
                (applyTexturesLoop env data shaderType serials rest))"
  by (rule ext) (simp add: Let_def call_andThen split: prod.splits option.splits)

lemma tracks_applyTexturesLoop:
  "tracks env own (\<lambda>ev. phase ev = ApplyingState) (applyTexturesLoop env data shaderType serials is)"
proof (induction "is")
  case Nil
  show ?case unfolding applyTexturesLoop_Nil by (rule tracks_succeed)
next
  case (Cons i rest)
  show ?case unfolding applyTexturesLoop_Cons Let_def
    by (auto intro!: tracks_andThen tracks_step tracks_withIncompleteTexture Cons)
qed

lemma clearTexturesLoop_Nil: "clearTexturesLoop env shaderType [] = succeed"
  by (rule ext) (simp add: succeed_def)

lemma clearTexturesLoop_Cons:
  "clearTexturesLoop env shaderType (samplerIndex # rest) =
     andThen (step env (SetTexture shaderType samplerIndex None)) (clearTexturesLoop env shaderType rest)"
  by (rule ext) (simp add: call_andThen)

lemma tracks_clearTexturesLoop:
  "tracks env own (\<lambda>ev. phase ev = ApplyingState) (clearTexturesLoop env shaderType is)"
proof (induction "is")
  case Nil
  show ?case unfolding clearTexturesLoop_Nil by (rule tracks_succeed)
next
  case (Cons i rest)
  show ?case unfolding clearTexturesLoop_Cons
    by (auto intro!: tracks_andThen tracks_step Cons)
qed

lemma tracks_applyTextures:
  "tracks env own (\<lambda>ev. phase ev = ApplyingState) (applyTextures env data)"
  unfolding applyTextures_def applyTexturesFor_def Let_def
  by (intro tracks_andThen tracks_applyTexturesLoop tracks_clearTexturesLoop tracks_succeed)

lemma collectUniformBuffers_Inl:
  "collectUniformBuffers data is acc = Inl e \<Longrightarrow>
   e = unboundUniformBuffer \<and>
   (\<exists>i \<in> set is. bufferId (indexedUniformBuffer (state data) (uniformBlockBinding data i)) = 0)"
  by (induction "is" arbitrary: acc) (auto simp: Let_def split: if_splits)

lemma collectUniformBuffers_unbound:
  "\<exists>i \<in> set is. bufferId (indexedUniformBuffer (state data) (uniformBlockBinding data i)) = 0 \<Longrightarrow>
   collectUniformBuffers data is acc = Inl unboundUniformBuffer"
  by (induction "is" arbitrary: acc) (auto simp: Let_def)

lemma unboundBlock_set:
  "unboundBlock data \<longleftrightarrow>
   (\<exists>i \<in> set [0..<activeUniformBlockCount (programBinary data)].
      bufferId (indexedUniformBuffer (state data) (uniformBlockBinding data i)) = 0)"
  by (auto simp: unboundBlock_def)

lemma isError_unboundUniformBuffer: "isError unboundUniformBuffer"
  by (simp add: isError_def unboundUniformBuffer_def)

lemma applyUniformBuffers_unbound:
  "unboundBlock data \<Longrightarrow> applyUniformBuffers env data r = (Returned unboundUniformBuffer, r)"
  by (simp add: applyUniformBuffers_def unboundBlock_set collectUniformBuffers_unbound)

lemma applyUniformBuffers_bound:
  "\<not> unboundBlock data \<Longrightarrow>
   \<exists>boundBuffers. applyUniformBuffers env data = step env (ApplyUniformBuffers boundBuffers)"
proof -
  assume nb: "\<not> unboundBlock data"
  obtain x where x: "collectUniformBuffers data [0..<activeUniformBlockCount (programBinary data)] [] = x"
    by simp
  show ?thesis
  proof (cases x)
    case (Inl e)
    with x have "\<exists>i \<in> set [0..<activeUniformBlockCount (programBinary data)].
        bufferId (indexedUniformBuffer (state data) (uniformBlockBinding data i)) = 0"
      using collectUniformBuffers_Inl[of data "[0..<activeUniformBlockCount (programBinary data)]" "[]" e]
      by blast
    with nb show ?thesis unfolding unboundBlock_set by blast
  next
    case (Inr bufs)
    with x have "applyUniformBuffers env data = step env (ApplyUniformBuffers bufs)"
      by (intro ext) (simp add: applyUniformBuffers_def)
    then show ?thesis ..
  qed
qed

lemma tracks_applyUniformBuffers:
  "tracks env (ownError data) (\<lambda>ev. phase ev = ApplyingState) (applyUniformBuffers env data)"
proof (cases "unboundBlock data")
  case True
  show ?thesis
  proof (rule tracksI)
    fix r res r' assume "applyUniformBuffers env data r = (res, r')"
    with True have "res = Returned unboundUniformBuffer" "r' = r"
      by (simp_all add: applyUniformBuffers_unbound)
    with True show "\<exists>evs. deviceCalls r' = deviceCalls r @ evs \<and>
        (\<forall>ev \<in> set evs. phase ev = ApplyingState) \<and>
        runOK env (ownError data) (deviceCalls r) evs res"
      by (intro exI[of _ "[]"]) (simp add: runOK_def ownError_def)
  qed
next
  case False
  then obtain bufs where "applyUniformBuffers env data = step env (ApplyUniformBuffers bufs)"
    using applyUniformBuffers_bound by blast
  then show ?thesis by (simp add: tracks_step)
qed

subsection \<open>The calls of a whole draw\<close>

lemma drawsI:
  assumes "\<And>r res r'. f r = (res, r') \<Longrightarrow>
     \<exists>evs. deviceCalls r' = deviceCalls r @ evs \<and> drawRun env data may passed (deviceCalls r) evs res"
  shows "draws env data may passed f"
  using assms unfolding draws_def by blast

lemma drawsD:
  assumes "draws env data may passed f" "f r = (res, r')"
  obtains evs where "deviceCalls r' = deviceCalls r @ evs"
    "drawRun env data may passed (deviceCalls r) evs res"
  using assms unfolding draws_def by blast

lemma drawRun_stopped:
  assumes "\<forall>ev \<in> set evs. phase ev = ApplyingState" "runOK env (ownError data) tr evs res"
    "\<forall>e. res = Returned e \<longrightarrow> isError e"
  shows "drawRun env data may passed tr evs res"
  unfolding drawRun_def using assms by (intro exI[of _ evs] exI[of _ "[]"]) auto

lemma drawRun_append:
  assumes pre: "\<forall>ev \<in> set evs1. phase ev = ApplyingState" "unfailing env tr evs1"
    and run: "drawRun env data may passed (tr @ evs1) evs2 res"
  shows "drawRun env data may passed tr (evs1 @ evs2) res"
proof -
  from run obtain pre2 post where p: "evs2 = pre2 @ post" "\<forall>ev \<in> set pre2. phase ev = ApplyingState"
    "post = [] \<or> (may \<and> unfailing env (tr @ evs1) pre2 \<and>
        (\<exists>d marks. post = d # marks \<and> phase d = Drawing \<and> (\<forall>ev \<in> set marks. phase ev = Marking)))"
    "\<forall>e. res = Returned e \<and> \<not> isError e \<longrightarrow> passed \<and> e = NoError"
    "runOK env (ownError data) (tr @ evs1) evs2 res"
    unfolding drawRun_def by blast
  have "runOK env (ownError data) tr (evs1 @ evs2) res"
    using pre(2) p(5) by (rule runOK_append)
  moreover have "post = [] \<or> (may \<and> unfailing env tr (evs1 @ pre2) \<and>
        (\<exists>d marks. post = d # marks \<and> phase d = Drawing \<and> (\<forall>ev \<in> set marks. phase ev = Marking)))"
    using p(3) pre(2) by (auto simp: unfailing_append)
  ultimately show ?thesis
    unfolding drawRun_def using p(1,2,4) pre(1)
    by (intro exI[of _ "evs1 @ pre2"] exI[of _ post]) auto
qed

lemma draws_andThen:
  assumes f: "tracks env (ownError data) (\<lambda>ev. phase ev = ApplyingState) f"
    and g: "draws env data may passed g"
  shows "draws env data may passed (andThen f g)"
proof (rule drawsI)
  fix r res r' assume a: "andThen f g r = (res, r')"
  obtain res1 r1 where f1: "f r = (res1, r1)" by (cases "f r")
  from f f1 obtain evs1 where e1: "deviceCalls r1 = deviceCalls r @ evs1"
    "\<forall>ev \<in> set evs1. phase ev = ApplyingState"
    "runOK env (ownError data) (deviceCalls r) evs1 res1" by (rule tracksD)
  show "\<exists>evs. deviceCalls r' = deviceCalls r @ evs \<and> drawRun env data may passed (deviceCalls r) evs res"
  proof (cases "\<exists>e. res1 = Returned e \<and> \<not> isError e")
    case True
    then obtain e where e: "res1 = Returned e" "\<not> isError e" by blast
    with a f1 have g2: "g r1 = (res, r')" by (simp add: andThen_def)
    from g g2 obtain evs2 where e2: "deviceCalls r' = deviceCalls r1 @ evs2"
      "drawRun env data may passed (deviceCalls r1) evs2 res" by (rule drawsD)
    from e1(3) e have "unfailing env (deviceCalls r) evs1" by (simp add: runOK_unfailing)
    with e1(2) have "drawRun env data may passed (deviceCalls r) (evs1 @ evs2) res"
      using e2(2) unfolding e1(1) by (rule drawRun_append)
    with e1(1) e2(1) show ?thesis by (intro exI[of _ "evs1 @ evs2"]) simp
  next
    case False
    with a f1 have eq: "res = res1" "r' = r1"
      by (auto simp: andThen_def split: Result.splits if_splits)
    with False have "\<forall>e. res = Returned e \<longrightarrow> isError e" by blast
    with e1 eq have "drawRun env data may passed (deviceCalls r) evs1 res"
      by (intro drawRun_stopped) simp_all
    with e1(1) eq show ?thesis by blast
  qed
qed

lemma draws_ASSERT:
  assumes "draws env data may passed k"
  shows "draws env data may passed (ASSERT env cond k)"
proof (rule drawsI)
  fix r res r' assume a: "ASSERT env cond k r = (res, r')"
  show "\<exists>evs. deviceCalls r' = deviceCalls r @ evs \<and> drawRun env data may passed (deviceCalls r) evs res"
  proof (cases "assertionsEnabled env \<and> \<not> cond")
    case True
    with a have "res = AssertFailed" "r' = r" by (auto simp: ASSERT_def)
    then show ?thesis
      by (intro exI[of _ "[]"]) (simp add: drawRun_stopped runOK_def)
  next
    case False
    with a have "k r = (res, r')" by (auto simp: ASSERT_def)
    with assms show ?thesis by (rule drawsD) blast
  qed
qed

lemma draws_weaken:
  assumes "draws env data may passed f" "may \<Longrightarrow> may'" "passed \<Longrightarrow> passed'"
  shows "draws env data may' passed' f"
proof (rule drawsI)
  fix r res r' assume "f r = (res, r')"
  with assms(1) obtain evs where e: "deviceCalls r' = deviceCalls r @ evs"
    "drawRun env data may passed (deviceCalls r) evs res" by (rule drawsD)
  from e(2) assms(2,3) have "drawRun env data may' passed' (deviceCalls r) evs res"
    unfolding drawRun_def by blast
  with e(1) show "\<exists>evs. deviceCalls r' = deviceCalls r @ evs \<and>
      drawRun env data may' passed' (deviceCalls r) evs res" by blast
qed

lemma draws_validated:
  assumes g: "draws env data may passed g"
  shows "draws env data (may \<and> \<not> unboundBlock data) (\<not> unboundBlock data)
           (andThen (applyUniformBuffers env data) g)"
proof (cases "unboundBlock data")
  case True
  show ?thesis
  proof (rule drawsI)
    fix r res r' assume "andThen (applyUniformBuffers env data) g r = (res, r')"
    with True have "res = Returned unboundUniformBuffer" "r' = r"
      by (simp_all add: andThen_def applyUniformBuffers_unbound isError_unboundUniformBuffer)
    with True show "\<exists>evs. deviceCalls r' = deviceCalls r @ evs \<and>
        drawRun env data (may \<and> \<not> unboundBlock data) (\<not> unboundBlock data) (deviceCalls r) evs res"
      by (intro exI[of _ "[]"])
        (simp add: drawRun_stopped runOK_def ownError_def isError_unboundUniformBuffer)
  qed
next
  case False
  have "draws env data may passed (andThen (applyUniformBuffers env data) g)"
    using tracks_applyUniformBuffers g by (rule draws_andThen)
  then show ?thesis by (rule draws_weaken) (simp_all add: False)
qed

lemma draws_after_void:
  assumes v: "\<And>r. \<exists>evs. deviceCalls (v r) = deviceCalls r @ evs \<and>
                         (\<forall>ev \<in> set evs. phase ev = ApplyingState \<and> \<not> fallible ev)"
    and f: "draws env data may passed f"
  shows "draws env data may passed (\<lambda>r. f (v r))"
proof (rule drawsI)
  fix r res r' assume a: "f (v r) = (res, r')"
  from v obtain evs1 where e1: "deviceCalls (v r) = deviceCalls r @ evs1"
    "\<forall>ev \<in> set evs1. phase ev = ApplyingState \<and> \<not> fallible ev" by blast
  from f a obtain evs2 where e2: "deviceCalls r' = deviceCalls (v r) @ evs2"
    "drawRun env data may passed (deviceCalls (v r)) evs2 res" by (rule drawsD)
  have "unfailing env (deviceCalls r) evs1" using e1(2) by (intro unfailing_void) blast
  moreover have "\<forall>ev \<in> set evs1. phase ev = ApplyingState" using e1(2) by blast
  ultimately have "drawRun env data may passed (deviceCalls r) (evs1 @ evs2) res"
    using e2(2) unfolding e1(1) by (intro drawRun_append)
  with e1(1) e2(1) show "\<exists>evs. deviceCalls r' = deviceCalls r @ evs \<and>
      drawRun env data may passed (deviceCalls r) evs res"
    by (intro exI[of _ "evs1 @ evs2"]) simp
qed

lemma skipDraw_result:
  "skipDraw data drawMode r = (skip, r2) \<Longrightarrow> skip = skips data drawMode \<and> deviceCalls r2 = deviceCalls r"
  by (auto simp: skipDraw_def skips_def split: if_splits)

lemma markTransformFeedbackUsage_calls:
  "\<exists>evs. deviceCalls (markTransformFeedbackUsage data r) = deviceCalls r @ evs \<and>
         (\<forall>ev \<in> set evs. phase ev = Marking)"
proof -
  have "\<exists>evs. deviceCalls (fold (\<lambda>i r. case indexedTransformFeedbackBuffer (state data) i of
                    None \<Rightarrow> r
                  | Some buffer \<Rightarrow> callVoid (MarkTransformFeedbackUsage buffer) r) is r)
          = deviceCalls r @ evs \<and> (\<forall>ev \<in> set evs. phase ev = Marking)" for "is"
  proof (induction "is" arbitrary: r)
    case Nil
    show ?case by simp
  next
    case (Cons i rest)
    show ?case
    proof (cases "indexedTransformFeedbackBuffer (state data) i")
      case None
      with Cons[of r] show ?thesis by simp
    next
      case (Some b)
      from Cons[of "callVoid (MarkTransformFeedbackUsage b) r"] obtain evs where
        "deviceCalls (fold (\<lambda>i r. case indexedTransformFeedbackBuffer (state data) i of
                    None \<Rightarrow> r
                  | Some buffer \<Rightarrow> callVoid (MarkTransformFeedbackUsage buffer) r) rest
              (callVoid (MarkTransformFeedbackUsage b) r))
          = deviceCalls (callVoid (MarkTransformFeedbackUsage b) r) @ evs"
        "\<forall>ev \<in> set evs. phase ev = Marking" by blast
      with Some show ?thesis
        by (intro exI[of _ "MarkTransformFeedbackUsage b # evs"]) (simp add: callVoid_def)
    qed
  qed
  then show ?thesis unfolding markTransformFeedbackUsage_def .
qed

lemma phase_Marking_not_fallible: "phase ev = Marking \<Longrightarrow> \<not> fallible ev"
  by (cases ev) simp_all

lemma draws_issue:
  assumes d: "phase d = Drawing" "fallible d"
    and v: "\<And>r. \<exists>evs. deviceCalls (v r) = deviceCalls r @ evs \<and> (\<forall>ev \<in> set evs. phase ev = Marking)"
  shows "draws env data True True (andThen (step env d) (\<lambda>r. succeed (v r)))"
proof (rule drawsI)
  fix r res r' assume a: "andThen (step env d) (\<lambda>r. succeed (v r)) r = (res, r')"
  let ?e = "stepResult env (deviceCalls r) d"
  let ?r1 = "snd (call env d r)"
  have r1: "deviceCalls ?r1 = deviceCalls r @ [d]" by (simp add: call_def)
  show "\<exists>evs. deviceCalls r' = deviceCalls r @ evs \<and> drawRun env data True True (deviceCalls r) evs res"
  proof (cases "isError ?e")
    case True
    with a have "res = Returned ?e" "r' = ?r1"
      by (simp_all add: andThen_def step_def call_def)
    moreover have "drawRun env data True True (deviceCalls r) [d] (Returned ?e)"
      unfolding drawRun_def using d True
      by (intro exI[of _ "[]"] exI[of _ "[d]"]) (simp add: runOK_def stoppedBy_def failsAt_def)
    ultimately show ?thesis using r1 by blast
  next
    case False
    with a have res: "res = Returned NoError" "r' = v ?r1"
      by (simp_all add: andThen_def step_def call_def succeed_def)
    from v[of ?r1] obtain marks where m: "deviceCalls (v ?r1) = deviceCalls ?r1 @ marks"
      "\<forall>ev \<in> set marks. phase ev = Marking" by blast
    have "unfailing env (deviceCalls r @ [d]) marks"
      using m(2) by (intro unfailing_void) (blast dest: phase_Marking_not_fallible)
    with False have "unfailing env (deviceCalls r) (d # marks)" by (simp add: failsAt_def)
    then have "drawRun env data True True (deviceCalls r) (d # marks) (Returned NoError)"
      unfolding drawRun_def using d m(2)
      by (intro exI[of _ "[]"] exI[of _ "d # marks"]) (simp add: runOK_def isError_def NoError_def)
    with res m(1) r1 show ?thesis by (intro exI[of _ "d # marks"]) simp
  qed
qed

lemma draws_skipOrIssue:
  assumes d: "phase d = Drawing" "fallible d"
    and v: "\<And>r. \<exists>evs. deviceCalls (v r) = deviceCalls r @ evs \<and> (\<forall>ev \<in> set evs. phase ev = Marking)"
  shows "draws env data (\<not> skips data mode) True
           (\<lambda>r. case skipDraw data mode r of
                   (skip, r2) \<Rightarrow>
                     if \<not> skip then andThen (step env d) (\<lambda>r. succeed (v r)) r2
                     else (Returned NoError, r2))"
proof (rule drawsI)
  fix r res r'
  assume a: "(case skipDraw data mode r of
                   (skip, r2) \<Rightarrow>
                     if \<not> skip then andThen (step env d) (\<lambda>r. succeed (v r)) r2
                     else (Returned NoError, r2)) = (res, r')"
  obtain skip r2 where sk: "skipDraw data mode r = (skip, r2)" by (cases "skipDraw data mode r")
  then have sk': "skip = skips data mode" "deviceCalls r2 = deviceCalls r"
    by (simp_all add: skipDraw_result)
  show "\<exists>evs. deviceCalls r' = deviceCalls r @ evs \<and>
      drawRun env data (\<not> skips data mode) True (deviceCalls r) evs res"
  proof (cases "skips data mode")
    case True
    with a sk sk' have "res = Returned NoError" "r' = r2" by simp_all
    then show ?thesis
      by (intro exI[of _ "[]"])
        (simp add: sk' drawRun_def runOK_def isError_def NoError_def)
  next
    case False
    with a sk sk' have "andThen (step env d) (\<lambda>r. succeed (v r)) r2 = (res, r')" by simp
    with draws_issue[OF d v, of env data] obtain evs where
      "deviceCalls r' = deviceCalls r2 @ evs" "drawRun env data True True (deviceCalls r2) evs res"
      by (rule drawsD)
    with False show ?thesis unfolding drawRun_def by (simp add: sk'(2))
  qed
qed

lemma applyTransformFeedbackBuffers_calls:
  "\<exists>evs. deviceCalls (snd (applyTransformFeedbackBuffers data r)) = deviceCalls r @ evs \<and>
         (\<forall>ev \<in> set evs. phase ev = ApplyingState \<and> \<not> fallible ev)"
  by (simp add: applyTransformFeedbackBuffers_def callVoid_def)

lemma applyTransformFeedbackBuffers_case:
  "(case applyTransformFeedbackBuffers data r of (tfActive, r1) \<Rightarrow> k tfActive r1) =
   k (transformFeedbackActive data) (snd (applyTransformFeedbackBuffers data r))"
  by (simp add: applyTransformFeedbackBuffers_def)

lemma markIfActive_calls:
  "\<exists>evs. deviceCalls (if tfActive then markTransformFeedbackUsage data r else r) = deviceCalls r @ evs \<and>
         (\<forall>ev \<in> set evs. phase ev = Marking)"
  using markTransformFeedbackUsage_calls[of data r] by simp

lemma draws_body_arrays:
  "draws env data (\<not> skips data mode \<and> \<not> unboundBlock data) (\<not> unboundBlock data)
     (andThen (applyRenderTarget env data mode False)
        (andThen (applyState env data mode)
           (andThen (step env (ApplyVertexBuffer first count instances))
              (\<lambda>r. case applyTransformFeedbackBuffers data r of
                      (tfActive, r1) \<Rightarrow>
                        andThen (applyShaders env data tfActive)
                          (andThen (applyTextures env data)
                             (andThen (applyUniformBuffers env data)
                                (\<lambda>r. case skipDraw data mode r of
                                        (skip, r2) \<Rightarrow>
                                          if \<not> skip then
                                            andThen (step env (DrawArrays mode count instances tfActive))
                                              (\<lambda>r. succeed
                                                 (if tfActive then markTransformFeedbackUsage data r
                                                  else r))
                                              r2
                                          else (Returned NoError, r2))))
                          r1))))"
proof -
  have tail: "draws env data (\<not> skips data mode \<and> \<not> unboundBlock data) (\<not> unboundBlock data)
      (andThen (applyUniformBuffers env data)
         (\<lambda>r. case skipDraw data mode r of
                 (skip, r2) \<Rightarrow>
                   if \<not> skip then
                     andThen (step env (DrawArrays mode count instances tfActive))
                       (\<lambda>r. succeed
                          (if tfActive then markTransformFeedbackUsage data r
                           else r))
                       r2
                   else (Returned NoError, r2)))" for tfActive
    by (rule draws_validated,
        rule draws_skipOrIssue[where v = "\<lambda>r. if tfActive then markTransformFeedbackUsage data r else r"
          and d = "DrawArrays mode count instances tfActive"])
      (simp_all add: markIfActive_calls)
  show ?thesis
    unfolding applyTransformFeedbackBuffers_case
    by (intro draws_andThen tracks_applyRenderTarget tracks_applyState tracks_step
        draws_after_void[where v = "\<lambda>r. snd (applyTransformFeedbackBuffers data r)"]
        applyTransformFeedbackBuffers_calls tracks_applyShaders tracks_applyTextures tail)
      simp_all
qed

lemma succeed_calls:
  "\<exists>evs. deviceCalls r = deviceCalls r @ evs \<and> (\<forall>ev \<in> set evs. phase ev = Marking)"
  by simp

lemma draws_body_elements:
  "draws env data (\<not> skips data mode \<and> \<not> unboundBlock data) (\<not> unboundBlock data)
     (andThen (applyRenderTarget env data mode False)
        (andThen (applyState env data mode)
           (\<lambda>r. let request = ApplyIndexBuffer indices (elementArrayBuffer (state data))
                                 count mode type indexRange0;
                     indexInfo = translatedIndices env (deviceCalls r) request;
                     vertexCount = sint (rangeLength (indexRange indexInfo) + 1)
                 in andThen (step env request)
                      (andThen (step env (ApplyVertexBuffer
                                           (sint (rangeStart (indexRange indexInfo)))
                                           vertexCount instances))
                         (\<lambda>r. case applyTransformFeedbackBuffers data r of
                                 (tfActive, r1) \<Rightarrow>
                                   ASSERT env (\<not> tfActive)
                                     (andThen (applyShaders env data tfActive)
                                        (andThen (applyTextures env data)
                                           (andThen (applyUniformBuffers env data)
                                              (\<lambda>r. case skipDraw data mode r of
                                                      (skip, r2) \<Rightarrow>
                                                        if \<not> skip then
                                                          andThen (step env (DrawElements mode count type indices
                                                                               (elementArrayBuffer (state data)) indexInfo instances))
                                                            succeed r2
                                                        else (Returned NoError, r2)))))
                                     r1))
                      r)))"
proof -
  have tail: "draws env data (\<not> skips data mode \<and> \<not> unboundBlock data) (\<not> unboundBlock data)
      (andThen (applyUniformBuffers env data)
         (\<lambda>r. case skipDraw data mode r of
                 (skip, r2) \<Rightarrow>
                   if \<not> skip then
                     andThen (step env (DrawElements mode count type indices
                                          (elementArrayBuffer (state data)) indexInfo instances))
                       (\<lambda>r. succeed r) r2
                   else (Returned NoError, r2)))" for indexInfo
    by (rule draws_validated,
        rule draws_skipOrIssue[where v = "\<lambda>r. r"
          and d = "DrawElements mode count type indices (elementArrayBuffer (state data)) indexInfo instances"])
      simp_all
  have inner: "draws env data (\<not> skips data mode \<and> \<not> unboundBlock data) (\<not> unboundBlock data)
      (andThen (step env request)
         (andThen (step env (ApplyVertexBuffer start vertexCount instances))
            (\<lambda>r. case applyTransformFeedbackBuffers data r of
                    (tfActive, r1) \<Rightarrow>
                      ASSERT env (\<not> tfActive)
                        (andThen (applyShaders env data tfActive)
                           (andThen (applyTextures env data)
                              (andThen (applyUniformBuffers env data)
                                 (\<lambda>r. case skipDraw data mode r of
                                         (skip, r2) \<Rightarrow>
                                           if \<not> skip then
                                             andThen (step env (DrawElements mode count type indices
                                                                  (elementArrayBuffer (state data)) indexInfo instances))
                                               (\<lambda>r. succeed r) r2
                                           else (Returned NoError, r2)))))
                        r1)))"
    if "fallible request" "phase request = ApplyingState" for request start vertexCount indexInfo
    unfolding applyTransformFeedbackBuffers_case
    by (intro draws_andThen tracks_step
        draws_after_void[where v = "\<lambda>r. snd (applyTransformFeedbackBuffers data r)"]
        applyTransformFeedbackBuffers_calls draws_ASSERT tracks_applyShaders tracks_applyTextures
        tail that) simp_all
  have eta: "succeed = (\<lambda>r. succeed r)" by simp
  have "draws env data (\<not> skips data mode \<and> \<not> unboundBlock data) (\<not> unboundBlock data)
     (\<lambda>r. let request = ApplyIndexBuffer indices (elementArrayBuffer (state data))
                           count mode type indexRange0;
               indexInfo = translatedIndices env (deviceCalls r) request;
               vertexCount = sint (rangeLength (indexRange indexInfo) + 1)
           in andThen (step env request)
                (andThen (step env (ApplyVertexBuffer
                                     (sint (rangeStart (indexRange indexInfo)))
                                     vertexCount instances))
                   (\<lambda>r. case applyTransformFeedbackBuffers data r of
                           (tfActive, r1) \<Rightarrow>
                             ASSERT env (\<not> tfActive)
                               (andThen (applyShaders env data tfActive)
                                  (andThen (applyTextures env data)
                                     (andThen (applyUniformBuffers env data)
                                        (\<lambda>r. case skipDraw data mode r of
                                                (skip, r2) \<Rightarrow>
                                                  if \<not> skip then
                                                    andThen (step env (DrawElements mode count type indices
                                                                         (elementArrayBuffer (state data)) indexInfo instances))
                                                      succeed r2
                                                  else (Returned NoError, r2)))))
                               r1))
                r)"
  proof (rule drawsI)
    fix r res r'
    assume a: "(let request = ApplyIndexBuffer indices (elementArrayBuffer (state data))
                           count mode type indexRange0;
               indexInfo = translatedIndices env (deviceCalls r) request;
               vertexCount = sint (rangeLength (indexRange indexInfo) + 1)
           in andThen (step env request)
                (andThen (step env (ApplyVertexBuffer
                                     (sint (rangeStart (indexRange indexInfo)))
                                     vertexCount instances))
                   (\<lambda>r. case applyTransformFeedbackBuffers data r of
                           (tfActive, r1) \<Rightarrow>
                             ASSERT env (\<not> tfActive)
                               (andThen (applyShaders env data tfActive)
                                  (andThen (applyTextures env data)
                                     (andThen (applyUniformBuffers env data)
                                        (\<lambda>r. case skipDraw data mode r of
                                                (skip, r2) \<Rightarrow>
                                                  if \<not> skip then
                                                    andThen (step env (DrawElements mode count type indices
                                                                         (elementArrayBuffer (state data)) indexInfo instances))
                                                      succeed r2
                                                  else (Returned NoError, r2)))))
                               r1))
                r) = (res, r')"
    show "\<exists>evs. deviceCalls r' = deviceCalls r @ evs \<and>
       drawRun env data (\<not> skips data mode \<and> \<not> unboundBlock data) (\<not> unboundBlock data)
         (deviceCalls r) evs res"
      using a unfolding Let_def
      by (subst (asm) eta) (erule drawsD[OF inner, rotated 2], simp_all)
  qed
  then show ?thesis
    by (intro draws_andThen tracks_applyRenderTarget tracks_applyState)
qed

lemma pipeline_gate:
  assumes body: "draws env data (\<not> skips data mode \<and> \<not> unboundBlock data) (\<not> unboundBlock data) body"
    and run: "ASSERT env cond
       (andThen (\<lambda>r. generateSwizzles env data (callVoid UpdateSamplerMapping r))
          (\<lambda>r. if \<not> primitiveTypeResult env (deviceCalls r) mode count
                then (Returned NoError, callVoid (ApplyPrimitiveType mode count) r)
                else body (callVoid (ApplyPrimitiveType mode count) r))) r = (res, r')"
  shows "\<exists>evs. deviceCalls r' = deviceCalls r @ evs \<and>
           pipelineRun env data mode count (deviceCalls r) evs res"
proof (cases "assertionsEnabled env \<and> \<not> cond")
  case True
  with run have "res = AssertFailed" "r' = r" by (auto simp: ASSERT_def)
  then show ?thesis
    unfolding pipelineRun_def
    by (intro exI[of _ "[]"]) (simp add: runOK_def)
next
  case False
  let ?pre = "\<lambda>r. generateSwizzles env data (callVoid UpdateSamplerMapping r)"
  let ?apt = "ApplyPrimitiveType mode count"
  have pre: "tracks env (ownError data) (\<lambda>ev. phase ev = Preparing) ?pre"
    by (intro tracks_after_void[where v = "callVoid UpdateSamplerMapping"] callVoid_appends
        tracks_generateSwizzles) simp_all
  obtain res1 r1 where p1: "?pre r = (res1, r1)" by (cases "?pre r")
  from pre p1 obtain evs1 where e1: "deviceCalls r1 = deviceCalls r @ evs1"
    "\<forall>ev \<in> set evs1. phase ev = Preparing" "runOK env (ownError data) (deviceCalls r) evs1 res1"
    by (rule tracksD)
  from run False have run': "andThen ?pre
          (\<lambda>r. if \<not> primitiveTypeResult env (deviceCalls r) mode count
                then (Returned NoError, callVoid ?apt r)
                else body (callVoid ?apt r)) r = (res, r')"
    by (auto simp: ASSERT_def)
  show ?thesis
  proof (cases "\<exists>e. res1 = Returned e \<and> \<not> isError e")
    case stop: False
    with run' p1 have eq: "res = res1" "r' = r1"
      by (auto simp: andThen_def split: Result.splits if_splits)
    with stop have "\<forall>e. res = Returned e \<longrightarrow> isError e" by blast
    with e1 eq show ?thesis
      unfolding pipelineRun_def
      by (intro exI[of _ evs1] conjI exI[of _ "[]"]) simp_all
  next
    case True
    then obtain e where e: "res1 = Returned e" "\<not> isError e" by blast
    from e1(3) e have unf: "unfailing env (deviceCalls r) evs1" by (simp add: runOK_unfailing)
    have unf': "unfailing env (deviceCalls r) (evs1 @ [?apt])"
      using unf by (simp add: unfailing_append failsAt_def)
    show ?thesis
    proof (cases "primitiveTypeResult env (deviceCalls r1) mode count")
      case no: False
      with run' p1 e have eq: "res = Returned NoError" "r' = callVoid ?apt r1"
        by (simp_all add: andThen_def)
      have "runOK env (ownError data) (deviceCalls r) (evs1 @ [?apt]) (Returned NoError)"
        using unf' by (simp add: runOK_def isError_def NoError_def)
      with eq e1 no unf show ?thesis
        unfolding pipelineRun_def
        by (intro exI[of _ "evs1 @ [?apt]"] conjI exI[of _ evs1] exI[of _ "[?apt]"])
          (simp_all add: callVoid_def)
    next
      case yes: True
      with run' p1 e have b: "body (callVoid ?apt r1) = (res, r')"
        by (simp add: andThen_def)
      from body b obtain evs2 where e2: "deviceCalls r' = deviceCalls (callVoid ?apt r1) @ evs2"
        "drawRun env data (\<not> skips data mode \<and> \<not> unboundBlock data) (\<not> unboundBlock data)
           (deviceCalls (callVoid ?apt r1)) evs2 res" by (rule drawsD)
      have tr: "deviceCalls (callVoid ?apt r1) = deviceCalls r @ evs1 @ [?apt]"
        by (simp add: callVoid_def e1(1))
      from e2(2) have "runOK env (ownError data) (deviceCalls r @ (evs1 @ [?apt])) evs2 res"
        unfolding tr drawRun_def by auto
      with unf' have "runOK env (ownError data) (deviceCalls r) ((evs1 @ [?apt]) @ evs2) res"
        by (rule runOK_append)
      with e2 e1 yes unf show ?thesis
        unfolding pipelineRun_def tr
        by (intro exI[of _ "evs1 @ ?apt # evs2"] conjI exI[of _ evs1] exI[of _ "?apt # evs2"])
          simp_all
    qed
  qed
qed

lemma drawArrays_pipeline:
  assumes "drawArrays env data mode first count instances r = (res, r')"
  shows "\<exists>evs. deviceCalls r' = deviceCalls r @ evs \<and>
           pipelineRun env data mode count (deviceCalls r) evs res"
  using draws_body_arrays assms[unfolded drawArrays_def] by (rule pipeline_gate)

lemma drawElements_pipeline:
  assumes "drawElements env data mode count type indices instances indexRange0 r = (res, r')"
  shows "\<exists>evs. deviceCalls r' = deviceCalls r @ evs \<and>
           pipelineRun env data mode count (deviceCalls r) evs res"
  using draws_body_elements assms[unfolded drawElements_def] by (rule pipeline_gate)

subsection \<open>What the calls of a draw tell\<close>

lemma pipelineRun_runOK:
  "pipelineRun env data mode count tr evs res \<Longrightarrow> runOK env (ownError data) tr evs res"
  unfolding pipelineRun_def by blast

lemma isDraw_phase: "isDraw ev \<longleftrightarrow> phase ev = Drawing"
  by (simp add: isDraw_def)

lemma pipelineRun_no_draw:
  assumes "pipelineRun env data mode count tr evs res" "skips data mode \<or> unboundBlock data"
  shows "\<forall>ev \<in> set evs. \<not> isDraw ev"
proof -
  from assms(1) obtain prep rest where p: "evs = prep @ rest" "\<forall>ev \<in> set prep. phase ev = Preparing"
    "rest = [] \<or> (\<exists>body. rest = ApplyPrimitiveType mode count # body \<and>
       (if primitiveTypeResult env (tr @ prep) mode count
        then drawRun env data (\<not> skips data mode \<and> \<not> unboundBlock data) (\<not> unboundBlock data)
               (tr @ prep @ [ApplyPrimitiveType mode count]) body res
        else body = [] \<and> res = Returned NoError))"
    unfolding pipelineRun_def by blast
  have "\<forall>ev \<in> set rest. \<not> isDraw ev"
  proof (cases "rest = []")
    case True
    then show ?thesis by simp
  next
    case False
    with p(3) obtain body where b: "rest = ApplyPrimitiveType mode count # body"
      "if primitiveTypeResult env (tr @ prep) mode count
        then drawRun env data (\<not> skips data mode \<and> \<not> unboundBlock data) (\<not> unboundBlock data)
               (tr @ prep @ [ApplyPrimitiveType mode count]) body res
        else body = [] \<and> res = Returned NoError" by blast
    have "\<forall>ev \<in> set body. phase ev = ApplyingState"
    proof (cases "primitiveTypeResult env (tr @ prep) mode count")
      case True
      with b(2) assms(2) show ?thesis unfolding drawRun_def by auto
    next
      case False
      with b(2) show ?thesis by simp
    qed
    with b(1) show ?thesis by (auto simp: isDraw_phase)
  qed
  with p(1,2) show ?thesis by (auto simp: isDraw_phase)
qed

lemma pipelineRun_before_last:
  assumes "pipelineRun env data mode count tr (xs @ [ev]) res" "fallible ev"
  shows "\<forall>e \<in> set xs. \<not> isDraw e"
proof -
  from assms(1) obtain prep rest where p: "xs @ [ev] = prep @ rest"
    "\<forall>ev \<in> set prep. phase ev = Preparing"
    "rest = [] \<or> (\<exists>body. rest = ApplyPrimitiveType mode count # body \<and>
       (if primitiveTypeResult env (tr @ prep) mode count
        then drawRun env data (\<not> skips data mode \<and> \<not> unboundBlock data) (\<not> unboundBlock data)
               (tr @ prep @ [ApplyPrimitiveType mode count]) body res
        else body = [] \<and> res = Returned NoError))"
    unfolding pipelineRun_def by blast
  show ?thesis
  proof (cases "rest = []")
    case True
    with p(1,2) show ?thesis by (auto simp: isDraw_phase)
  next
    case False
    with p(3) obtain body where b: "rest = ApplyPrimitiveType mode count # body"
      "if primitiveTypeResult env (tr @ prep) mode count
        then drawRun env data (\<not> skips data mode \<and> \<not> unboundBlock data) (\<not> unboundBlock data)
               (tr @ prep @ [ApplyPrimitiveType mode count]) body res
        else body = [] \<and> res = Returned NoError" by blast
    show ?thesis
    proof (cases "body = []")
      case True
      with p(1) b(1) have "ev = ApplyPrimitiveType mode count" by simp
      with assms(2) show ?thesis by simp
    next
      case nonempty: False
      with b(2) have "drawRun env data (\<not> skips data mode \<and> \<not> unboundBlock data) (\<not> unboundBlock data)
               (tr @ prep @ [ApplyPrimitiveType mode count]) body res"
        by (auto split: if_splits)
      then obtain pre post where d: "body = pre @ post" "\<forall>ev \<in> set pre. phase ev = ApplyingState"
        "post = [] \<or> (\<exists>d marks. post = d # marks \<and> phase d = Drawing \<and>
                        (\<forall>ev \<in> set marks. phase ev = Marking))"
        unfolding drawRun_def by blast
      show ?thesis
      proof (cases "post = []")
        case True
        with p(1) b(1) d(1) have "xs @ [ev] = prep @ ApplyPrimitiveType mode count # pre" by simp
        then have "set xs \<subseteq> set (prep @ ApplyPrimitiveType mode count # pre)"
          by (metis set_append sup_ge1)
        with p(2) d(2) show ?thesis by (auto simp: isDraw_phase)
      next
        case False
        with d(3) obtain dr marks where m: "post = dr # marks" "phase dr = Drawing"
          "\<forall>ev \<in> set marks. phase ev = Marking" by blast
        show ?thesis
        proof (cases "marks = []")
          case True
          with p(1) b(1) d(1) m(1) have "xs @ [ev] = (prep @ ApplyPrimitiveType mode count # pre) @ [dr]"
            by simp
          then have "xs = prep @ ApplyPrimitiveType mode count # pre" by (simp only: append1_eq_conv)
          with p(2) d(2) show ?thesis by (auto simp: isDraw_phase)
        next
          case False
          with p(1) b(1) d(1) m(1) have "ev = last marks"
            by (metis append_is_Nil_conv last.simps last_append last_snoc list.distinct(1))
          with False m(3) have "phase ev = Marking" by simp
          with assms(2) show ?thesis by (simp add: phase_Marking_not_fallible)
        qed
      qed
    qed
  qed
qed

lemma pipelineRun_gate:
  assumes run: "pipelineRun env data mode count tr evs res"
    and i: "i < length evs" "evs ! i = ApplyPrimitiveType m c"
    and no: "\<not> primitiveTypeResult env (tr @ take i evs) m c"
  shows "Suc i = length evs \<and> res = Returned NoError \<and> (\<forall>j < i. phase (evs ! j) = Preparing)"
proof -
  from run obtain prep rest where p: "evs = prep @ rest" "\<forall>ev \<in> set prep. phase ev = Preparing"
    "rest = [] \<or> (\<exists>body. rest = ApplyPrimitiveType mode count # body \<and>
       (if primitiveTypeResult env (tr @ prep) mode count
        then drawRun env data (\<not> skips data mode \<and> \<not> unboundBlock data) (\<not> unboundBlock data)
               (tr @ prep @ [ApplyPrimitiveType mode count]) body res
        else body = [] \<and> res = Returned NoError))"
    unfolding pipelineRun_def by blast
  have ge: "length prep \<le> i"
  proof (rule ccontr)
    assume "\<not> length prep \<le> i"
    then have "evs ! i \<in> set prep" by (simp add: p(1) nth_append)
    with p(2) i(2) show False by auto
  qed
  with i(1) p(1) have "rest \<noteq> []" by auto
  with p(3) obtain body where b: "rest = ApplyPrimitiveType mode count # body"
    "if primitiveTypeResult env (tr @ prep) mode count
      then drawRun env data (\<not> skips data mode \<and> \<not> unboundBlock data) (\<not> unboundBlock data)
             (tr @ prep @ [ApplyPrimitiveType mode count]) body res
      else body = [] \<and> res = Returned NoError" by blast
  have body_phases: "\<forall>ev \<in> set body. phase ev \<noteq> AskingPrimitiveType"
  proof (cases "primitiveTypeResult env (tr @ prep) mode count")
    case True
    with b(2) obtain pre post where d: "body = pre @ post" "\<forall>ev \<in> set pre. phase ev = ApplyingState"
      "post = [] \<or> (\<exists>d marks. post = d # marks \<and> phase d = Drawing \<and>
                      (\<forall>ev \<in> set marks. phase ev = Marking))"
      unfolding drawRun_def by auto
    then show ?thesis by auto
  next
    case False
    with b(2) show ?thesis by simp
  qed
  have eq: "i = length prep"
  proof (rule ccontr)
    assume "i \<noteq> length prep"
    with ge have gt: "length prep < i" by simp
    with i(1) have "evs ! i \<in> set body"
      by (auto simp: p(1) b(1) nth_append nth_Cons split: nat.splits)
    with body_phases i(2) show False by auto
  qed
  then have tk: "take i evs = prep" and at: "evs ! i = ApplyPrimitiveType mode count"
    by (simp_all add: p(1) b(1))
  with i(2) have mc: "m = mode" "c = count" by simp_all
  from no tk mc b(2) have fin: "body = []" "res = Returned NoError" by simp_all
  have "\<forall>j < i. phase (evs ! j) = Preparing"
    using p(2) by (simp add: eq p(1) nth_append)
  with fin eq show ?thesis by (simp add: p(1) b(1))
qed

lemma pipelineRun_success:
  assumes "pipelineRun env data mode count tr evs res" "res = Returned e" "\<not> isError e"
  shows "e = NoError"
proof -
  from assms(1) obtain prep rest where p:
    "(rest = [] \<and> (\<forall>e. res = Returned e \<longrightarrow> isError e)) \<or>
     (\<exists>body. rest = ApplyPrimitiveType mode count # body \<and>
       (if primitiveTypeResult env (tr @ prep) mode count
        then drawRun env data (\<not> skips data mode \<and> \<not> unboundBlock data) (\<not> unboundBlock data)
               (tr @ prep @ [ApplyPrimitiveType mode count]) body res
        else body = [] \<and> res = Returned NoError))"
    unfolding pipelineRun_def by blast
  with assms(2,3) show ?thesis unfolding drawRun_def by (auto split: if_splits)
qed

lemma pipelineRun_unbound:
  assumes run: "pipelineRun env data mode count tr evs res" and ub: "unboundBlock data"
  shows "res = AssertFailed \<or> res = Returned unboundUniformBuffer \<or>
         (\<exists>e. res = Returned e \<and> stoppedBy env tr evs e) \<or>
         (res = Returned NoError \<and> evs \<noteq> [] \<and> last evs = ApplyPrimitiveType mode count \<and>
          \<not> primitiveTypeResult env (tr @ butlast evs) mode count)"
proof (cases res)
  case AssertFailed
  then show ?thesis by simp
next
  case (Returned e)
  show ?thesis
  proof (cases "isError e")
    case True
    with run Returned have "(ownError data e \<and> unfailing env tr evs) \<or> stoppedBy env tr evs e"
      by (auto dest!: pipelineRun_runOK simp: runOK_def)
    with Returned show ?thesis by (auto simp: ownError_def)
  next
    case False
    from run obtain prep rest where p: "evs = prep @ rest"
      "(rest = [] \<and> (\<forall>e. res = Returned e \<longrightarrow> isError e)) \<or>
       (\<exists>body. rest = ApplyPrimitiveType mode count # body \<and>
         (if primitiveTypeResult env (tr @ prep) mode count
          then drawRun env data (\<not> skips data mode \<and> \<not> unboundBlock data) (\<not> unboundBlock data)
                 (tr @ prep @ [ApplyPrimitiveType mode count]) body res
          else body = [] \<and> res = Returned NoError))"
      unfolding pipelineRun_def by blast
    with Returned False ub show ?thesis
      unfolding drawRun_def by (auto split: if_splits)
  qed
qed

lemma runOK_failing_call:
  assumes ok: "runOK env own tr evs res" and i: "i < length evs"
    and f: "failsAt env (tr @ take i evs) (evs ! i)"
  shows "Suc i = length evs \<and> stoppedBy env tr evs (stepResult env (tr @ take i evs) (evs ! i)) \<and>
         res = Returned (stepResult env (tr @ take i evs) (evs ! i))"
proof -
  have nu: "\<not> unfailing env tr evs" using unfailing_nth[OF _ i] f by blast
  with ok obtain e where e: "res = Returned e" "stoppedBy env tr evs e"
    by (auto simp: runOK_def split: Result.splits if_splits)
  from e(2) i f have last: "Suc i = length evs" by (rule stoppedBy_last)
  then have li: "i = length evs - 1" and ne: "evs \<noteq> []" by auto
  have "take i evs = butlast evs" "evs ! i = last evs"
    using ne by (simp_all add: li butlast_conv_take last_conv_nth)
  with e last show ?thesis by (simp add: stoppedBy_def)
qed

lemma word32_all_ones: "NOT (0 :: 32 word) = 0xFFFFFFFF"
  by simp

subsection \<open>The sample-coverage mask\<close>

text \<open>
  C1, as stated, fails when inversion is requested: for four samples and a coverage of
  one half the ladder gives \<^verbatim>\<open>0xA\<close>, and the mask that \<open>applyState\<close> derives is its
  complement \<^verbatim>\<open>0xFFFFFFF5\<close>.
\<close>

theorem inverted_mask_is_not_the_ladder:
  "ladder_spec 4 (Finite (1 / 2)) = 0xA \<and>
   sampleMask True (Finite (1 / 2)) True 4 = 0xFFFFFFF5 \<and>
   sampleMask True (Finite (1 / 2)) True 4 \<noteq> ladder_spec 4 (Finite (1 / 2))"
proof -
  have a: "sampleMask True (Finite (1 / 2)) False 4 = 0xA"
    by (simp add: sampleMask_def coverageLoop.simps float_of_int_exact round32_dyadic)
  have b: "sampleMask True (Finite (1 / 2)) True 4 = 0xFFFFFFF5"
    by (simp add: sampleMask_def coverageLoop.simps float_of_int_exact round32_dyadic)
  from a have c: "ladder_spec 4 (Finite (1 / 2)) = 0xA"
    using sampleMask_ladder[of "Finite (1 / 2)" False 4] by simp
  show ?thesis unfolding b c by simp
qed

text \<open>
  C1, as amended. With sample-coverage testing enabled, the mask that \<open>applyState\<close>
  derives from a coverage value \<open>c\<close> and a sample count \<open>S\<close> is the result of the ladder
  when inversion is not requested, and the complement of that result when it is; the test
  \<^verbatim>\<open>coverageValue != 0\<close> of the source changes nothing. For four samples and a
  coverage of one half, without inversion, exactly two bits are set. With the test
  disabled the mask is all ones. The statement holds for every single-precision \<open>c\<close>,
  in particular for those in \<open>[0,1]\<close>.
\<close>

theorem sampleMask_refines_ladder:
  "sampleMask True c False S = ladder_spec (nat S) c \<and>
   sampleMask True c True S = NOT (ladder_spec (nat S) c) \<and>
   popcount (sampleMask True (Finite (1 / 2)) False 4) = 2 \<and>
   sampleMask False c invert S = 0xFFFFFFFF"
proof -
  have "popcount (sampleMask True (Finite (1 / 2)) False 4) = 2"
    by (simp add: sampleMask_def coverageLoop.simps float_of_int_exact round32_dyadic
        popcount_def upt_rec)
  moreover have "sampleMask False c invert S = 0xFFFFFFFF"
    by (simp add: sampleMask_def)
  ultimately show ?thesis by (simp add: sampleMask_ladder)
qed

text \<open>
  C10. With sample-coverage testing enabled and inversion requested, the complement is
  taken of the whole word of 32 bits: for a sample count \<open>S < 32\<close> every bit at a
  position from \<open>S\<close> up to 31 is set, and with a coverage value of zero the mask is
  \<^verbatim>\<open>0xFFFFFFFF\<close> for every sample count.
\<close>

theorem inverted_mask_high_bits:
  "(S < 32 \<longrightarrow> (\<forall>n. nat S \<le> n \<and> n < 32 \<longrightarrow> bit (sampleMask True c True S) n)) \<and>
   sampleMask True c True S = NOT (sampleMask True c False S) \<and>
   sampleMask True (Finite 0) True S = 0xFFFFFFFF"
proof (intro conjI impI allI)
  fix n assume n: "nat S \<le> n \<and> n < 32"
  have "\<not> bit (coverageLoop c S 0 (Finite (1 / 2)) 0) n"
  proof
    assume "bit (coverageLoop c S 0 (Finite (1 / 2)) 0) n"
    then have "bit (0 :: 32 word) (n - nat (S - 0))"
      by (rule coverageLoop_high_bits) (use n in simp)
    then show False by simp
  qed
  with n show "bit (sampleMask True c True S) n"
    by (simp add: sampleMask_def bit_not_iff)
next
  show "sampleMask True c True S = NOT (sampleMask True c False S)"
    by (simp add: sampleMask_def)
next
  show "sampleMask True (Finite 0) True S = 0xFFFFFFFF"
    by (simp add: sampleMask_def)
qed

theorem inverted_mask_high_bits_witness:
  "(4 :: int) < 32 \<and> nat 4 \<le> 5 \<and> (5 :: nat) < 32 \<and>
   bit (sampleMask True (Finite (1 / 2)) True 4) 5"
proof -
  have "(4 :: int) < 32 \<longrightarrow>
        (\<forall>n. nat 4 \<le> n \<and> n < 32 \<longrightarrow> bit (sampleMask True (Finite (1 / 2)) True 4) n)"
    using inverted_mask_high_bits [of 4 "Finite (1 / 2)"] by (rule conjunct1)
  then have "bit (sampleMask True (Finite (1 / 2)) True 4) 5" by simp
  then show ?thesis by simp
qed




subsection \<open>The draw entry points\<close>

lemmas run_defs =
  drawArrays_def drawElements_def ASSERT_def andThen_def step_def call_def callVoid_def succeed_def
  generateSwizzles_def generateSwizzlesFor_def applyRenderTarget_def applyState_def
  applyTransformFeedbackBuffers_def transformFeedbackActive_def applyShaders_def
  applyTextures_def applyTexturesFor_def getIncompleteTexture_def isTextureKind_def
  getBoundFramebufferTextureSerials_def attachmentSerial_def getColorbuffer_def
  IMPLEMENTATION_MAX_DRAW_BUFFERS_def binary_search_def lower_bound.simps
  applyUniformBuffers_def unboundUniformBuffer_def skipDraw_def IsTriangleMode_def
  markTransformFeedbackUsage_def isError_def NoError_def Let_def upt_rec

lemmas scene_defs =
  sceneData_def sceneState_def sceneFramebuffer_def unboundScene_def willingBackend_def
  failingShaders_def deviceLost_def newRenderer_def

lemma draw_pipeline:
  assumes "drawArrays env data mode first count instances r = (res, r') \<or>
           drawElements env data mode count type indices instances indexRange0 r = (res, r')"
  shows "\<exists>evs. deviceCalls r' = deviceCalls r @ evs \<and>
           pipelineRun env data mode count (deviceCalls r) evs res"
  using assms
proof
  assume "drawArrays env data mode first count instances r = (res, r')"
  then show ?thesis by (rule drawArrays_pipeline)
next
  assume "drawElements env data mode count type indices instances indexRange0 r = (res, r')"
  then show ?thesis by (rule drawElements_pipeline)
qed

lemma phase_Preparing:
  "phase ev = Preparing \<Longrightarrow> ev = UpdateSamplerMapping \<or> (\<exists>t. ev = GenerateSwizzle t)"
  by (cases ev) simp_all

lemma shaders_run:
  "fst (drawArrays failingShaders sceneData GL_POINTS 0 3 1 (newRenderer 100)) = Returned deviceLost"
  "length (deviceCalls (snd (drawArrays failingShaders sceneData GL_POINTS 0 3 1 (newRenderer 100)))) = 11"
  "deviceCalls (snd (drawArrays failingShaders sceneData GL_POINTS 0 3 1 (newRenderer 100))) ! 10
     = ApplyShaders False False"
  by (simp_all add: run_defs scene_defs)

lemma failing_draw_run:
  "fst (drawArrays failingDraw sceneData GL_TRIANGLES 0 3 1 (newRenderer 100)) = Returned deviceLost"
  "last (deviceCalls (snd (drawArrays failingDraw sceneData GL_TRIANGLES 0 3 1 (newRenderer 100))))
     = DrawArrays GL_TRIANGLES 3 1 False"
  "fst (drawElements failingDraw sceneData GL_TRIANGLES 3 0x1403 0 1
          \<lparr>rangeStart = 0, rangeEnd = 2\<rparr> (newRenderer 100)) = Returned deviceLost"
  "filter isDraw (deviceCalls (snd (drawElements failingDraw sceneData GL_TRIANGLES 3 0x1403 0 1
          \<lparr>rangeStart = 0, rangeEnd = 2\<rparr> (newRenderer 100)))) \<noteq> []"
  by (simp_all add: run_defs scene_defs failingDraw_def isDraw_def)

text \<open>
  C7, as stated, fails: the draw call of the back end is itself a step that can signal
  an error. With a back end that fails in \<^verbatim>\<open>drawArrays\<close> or \<^verbatim>\<open>drawElements\<close>, the
  draw returns that error, and the draw call has been issued: it is the last call in
  the record.
\<close>

theorem failing_draw_was_issued:
  "fst (drawArrays failingDraw sceneData GL_TRIANGLES 0 3 1 (newRenderer 100)) = Returned deviceLost \<and>
   isError deviceLost \<and>
   last (deviceCalls (snd (drawArrays failingDraw sceneData GL_TRIANGLES 0 3 1 (newRenderer 100))))
     = DrawArrays GL_TRIANGLES 3 1 False \<and>
   isDraw (DrawArrays GL_TRIANGLES 3 1 False) \<and>
   fst (drawElements failingDraw sceneData GL_TRIANGLES 3 0x1403 0 1
          \<lparr>rangeStart = 0, rangeEnd = 2\<rparr> (newRenderer 100)) = Returned deviceLost \<and>
   filter isDraw (deviceCalls (snd (drawElements failingDraw sceneData GL_TRIANGLES 3 0x1403 0 1
          \<lparr>rangeStart = 0, rangeEnd = 2\<rparr> (newRenderer 100)))) \<noteq> []"
  by (simp add: failing_draw_run) (simp add: isError_def deviceLost_def isDraw_def)

text \<open>
  C7, as amended. In every call of \<open>drawArrays\<close> or \<open>drawElements\<close>, a call that returns
  an error is the last call made: no later step runs, and the value returned is the error
  of that call. No draw call was issued before it, and unless the failing call is the
  draw call itself, no draw call is issued at all. Every error that a draw returns is the
  error of its last call or the error that \<open>applyUniformBuffers\<close> raises itself, after
  which no call is made and no draw is issued. Nothing is retried or rolled back: the
  calls made stay in the record.
\<close>

theorem draw_stops_at_first_error:
  assumes "drawArrays env data mode first count instances r = (res, r') \<or>
           drawElements env data mode count type indices instances indexRange0 r = (res, r')"
  shows "\<exists>evs. deviceCalls r' = deviceCalls r @ evs \<and>
     (\<forall>i < length evs. failsAt env (deviceCalls r @ take i evs) (evs ! i) \<longrightarrow>
        Suc i = length evs \<and>
        res = Returned (stepResult env (deviceCalls r @ take i evs) (evs ! i)) \<and>
        (\<forall>j < i. \<not> isDraw (evs ! j)) \<and>
        (\<not> isDraw (evs ! i) \<longrightarrow> (\<forall>ev \<in> set evs. \<not> isDraw ev))) \<and>
     (\<forall>e. res = Returned e \<and> isError e \<longrightarrow>
        stoppedBy env (deviceCalls r) evs e \<or>
        (e = unboundUniformBuffer \<and> unboundBlock data \<and> unfailing env (deviceCalls r) evs \<and>
         (\<forall>ev \<in> set evs. \<not> isDraw ev)))"
proof -
  from draw_pipeline[OF assms] obtain evs where e: "deviceCalls r' = deviceCalls r @ evs"
    "pipelineRun env data mode count (deviceCalls r) evs res" by blast
  let ?tr = "deviceCalls r"
  have ok: "runOK env (ownError data) ?tr evs res" using e(2) by (rule pipelineRun_runOK)
  have first: "Suc i = length evs \<and> res = Returned (stepResult env (?tr @ take i evs) (evs ! i)) \<and>
        (\<forall>j < i. \<not> isDraw (evs ! j)) \<and>
        (\<not> isDraw (evs ! i) \<longrightarrow> (\<forall>ev \<in> set evs. \<not> isDraw ev))"
    if i: "i < length evs" and f: "failsAt env (?tr @ take i evs) (evs ! i)" for i
  proof -
    from runOK_failing_call[OF ok i f] have l: "Suc i = length evs"
      and r: "res = Returned (stepResult env (?tr @ take i evs) (evs ! i))" by simp_all
    from l have "evs = take i evs @ [evs ! i]"
      by (metis i lessI take_Suc_conv_app_nth take_all_iff le_refl)
    with e(2) have "pipelineRun env data mode count ?tr (take i evs @ [evs ! i]) res" by simp
    moreover have "fallible (evs ! i)" using f by (simp add: failsAt_def)
    ultimately have "\<forall>x \<in> set (take i evs). \<not> isDraw x" by (rule pipelineRun_before_last)
    then have before: "\<forall>j < i. \<not> isDraw (evs ! j)"
      using i by (metis in_set_conv_nth length_take min.absorb4 nth_take)
    have "\<forall>ev \<in> set evs. \<not> isDraw ev" if last: "\<not> isDraw (evs ! i)"
    proof
      fix ev assume "ev \<in> set evs"
      then obtain j where j: "j < length evs" "ev = evs ! j" by (auto simp: in_set_conv_nth)
      show "\<not> isDraw ev"
      proof (cases "j = i")
        case True
        with j last show ?thesis by simp
      next
        case False
        with j l have "j < i" by simp
        with before j show ?thesis by simp
      qed
    qed
    with l r before show ?thesis by simp
  qed
  have second: "stoppedBy env ?tr evs e' \<or>
        (e' = unboundUniformBuffer \<and> unboundBlock data \<and> unfailing env ?tr evs \<and>
         (\<forall>ev \<in> set evs. \<not> isDraw ev))"
    if "res = Returned e' \<and> isError e'" for e'
  proof -
    from ok that have "(ownError data e' \<and> unfailing env ?tr evs) \<or> stoppedBy env ?tr evs e'"
      by (simp add: runOK_def)
    then show ?thesis
    proof
      assume o: "ownError data e' \<and> unfailing env ?tr evs"
      then have "unboundBlock data" by (simp add: ownError_def)
      then have "skips data mode \<or> unboundBlock data" by simp
      with e(2) have "\<forall>ev \<in> set evs. \<not> isDraw ev" by (rule pipelineRun_no_draw)
      with o show ?thesis by (simp add: ownError_def)
    qed simp
  qed
  from e(1) first second show ?thesis by blast
qed

theorem draw_stops_at_first_error_witness:
  "fst (drawArrays failingShaders sceneData GL_POINTS 0 3 1 (newRenderer 100)) = Returned deviceLost \<and>
   isError deviceLost \<and>
   length (deviceCalls (snd (drawArrays failingShaders sceneData GL_POINTS 0 3 1 (newRenderer 100)))) = 11 \<and>
   deviceCalls (snd (drawArrays failingShaders sceneData GL_POINTS 0 3 1 (newRenderer 100))) ! 10
     = ApplyShaders False False \<and>
   failsAt failingShaders
     (take 10 (deviceCalls (snd (drawArrays failingShaders sceneData GL_POINTS 0 3 1 (newRenderer 100)))))
     (ApplyShaders False False) \<and>
   filter isDraw
     (deviceCalls (snd (drawArrays failingShaders sceneData GL_POINTS 0 3 1 (newRenderer 100)))) = [] \<and>
   stoppedBy failingShaders []
     (deviceCalls (snd (drawArrays failingShaders sceneData GL_POINTS 0 3 1 (newRenderer 100)))) deviceLost"
proof -
  let ?run = "drawArrays failingShaders sceneData GL_POINTS 0 3 1 (newRenderer 100)"
  let ?evs = "deviceCalls (snd ?run)"
  have run: "?run = (Returned deviceLost, snd ?run)"
    using shaders_run(1) by (cases ?run) simp
  have nil: "deviceCalls (newRenderer 100) = []" by (simp add: newRenderer_def)
  from draw_stops_at_first_error[OF disjI1[OF run]] obtain evs where
    e: "?evs = deviceCalls (newRenderer 100) @ evs"
    and first: "\<forall>i < length evs.
        failsAt failingShaders (deviceCalls (newRenderer 100) @ take i evs) (evs ! i) \<longrightarrow>
        Suc i = length evs \<and>
        Returned deviceLost =
          Returned (stepResult failingShaders (deviceCalls (newRenderer 100) @ take i evs) (evs ! i)) \<and>
        (\<forall>j < i. \<not> isDraw (evs ! j)) \<and>
        (\<not> isDraw (evs ! i) \<longrightarrow> (\<forall>ev \<in> set evs. \<not> isDraw ev))"
    and second: "\<forall>e. Returned deviceLost = Returned e \<and> isError e \<longrightarrow>
        stoppedBy failingShaders (deviceCalls (newRenderer 100)) evs e \<or>
        (e = unboundUniformBuffer \<and> unboundBlock sceneData \<and>
         unfailing failingShaders (deviceCalls (newRenderer 100)) evs \<and>
         (\<forall>ev \<in> set evs. \<not> isDraw ev))"
    by blast
  have evs: "evs = ?evs" using e by (simp add: nil)
  have len: "length ?evs = 11" and at: "?evs ! 10 = ApplyShaders False False"
    by (simp_all add: shaders_run)
  have err: "isError deviceLost" by (simp add: isError_def deviceLost_def)
  have fails: "failsAt failingShaders (take 10 ?evs) (ApplyShaders False False)"
    by (simp add: failsAt_def failingShaders_def err)
  have "10 < length ?evs" using len by simp
  moreover have "failsAt failingShaders ([] @ take 10 ?evs) (?evs ! 10)"
    using fails at by simp
  ultimately have "\<not> isDraw (?evs ! 10) \<longrightarrow> (\<forall>ev \<in> set ?evs. \<not> isDraw ev)"
    using first[unfolded evs nil] by blast
  then have "\<forall>ev \<in> set ?evs. \<not> isDraw ev" by (simp add: at isDraw_def)
  then have nodraw: "filter isDraw ?evs = []" by (simp add: filter_empty_conv)
  have "deviceLost \<noteq> unboundUniformBuffer"
    by (simp add: deviceLost_def unboundUniformBuffer_def)
  with second err have "stoppedBy failingShaders [] ?evs deviceLost"
    unfolding evs nil by blast
  with shaders_run(1) err len at fails nodraw show ?thesis by simp
qed

text \<open>
  C5. In every call of \<open>drawArrays\<close> or \<open>drawElements\<close> in which \<open>applyPrimitiveType\<close>
  is asked about the mode and count of the call and answers false, that question is the
  last call made and the draw returns \<open>GL_NO_ERROR\<close>; no draw call is issued and no
  call that sets device state is made. What precedes the question is the refresh of the
  sampler mapping and the swizzles generated for the textures that need one.
\<close>

theorem no_geometry_returns_success:
  assumes "drawArrays env data mode first count instances r = (res, r') \<or>
           drawElements env data mode count type indices instances indexRange0 r = (res, r')"
  shows "\<exists>evs. deviceCalls r' = deviceCalls r @ evs \<and>
     (\<forall>i < length evs. evs ! i = ApplyPrimitiveType mode count \<and>
          \<not> primitiveTypeResult env (deviceCalls r @ take i evs) mode count \<longrightarrow>
        res = Returned NoError \<and> Suc i = length evs \<and>
        (\<forall>ev \<in> set evs. \<not> isDraw ev \<and> \<not> isStateChange ev) \<and>
        (\<forall>j < i. evs ! j = UpdateSamplerMapping \<or> (\<exists>texture. evs ! j = GenerateSwizzle texture)))"
proof -
  from draw_pipeline[OF assms] obtain evs where e: "deviceCalls r' = deviceCalls r @ evs"
    "pipelineRun env data mode count (deviceCalls r) evs res" by blast
  have "res = Returned NoError \<and> Suc i = length evs \<and>
        (\<forall>ev \<in> set evs. \<not> isDraw ev \<and> \<not> isStateChange ev) \<and>
        (\<forall>j < i. evs ! j = UpdateSamplerMapping \<or> (\<exists>texture. evs ! j = GenerateSwizzle texture))"
    if i: "i < length evs" and at: "evs ! i = ApplyPrimitiveType mode count"
      and no: "\<not> primitiveTypeResult env (deviceCalls r @ take i evs) mode count" for i
  proof -
    from pipelineRun_gate[OF e(2) i at no] have l: "Suc i = length evs"
      and res: "res = Returned NoError" and prep: "\<forall>j < i. phase (evs ! j) = Preparing"
      by simp_all
    have "\<not> isDraw ev \<and> \<not> isStateChange ev" if "ev \<in> set evs" for ev
    proof -
      from that obtain j where j: "j < length evs" "ev = evs ! j" by (auto simp: in_set_conv_nth)
      show ?thesis
      proof (cases "j = i")
        case True
        with j at show ?thesis by (simp add: isDraw_def isStateChange_def)
      next
        case False
        with j l have "j < i" by simp
        with prep j show ?thesis by (simp add: isDraw_def isStateChange_def)
      qed
    qed
    moreover have "\<forall>j < i. evs ! j = UpdateSamplerMapping \<or> (\<exists>texture. evs ! j = GenerateSwizzle texture)"
      using prep phase_Preparing by blast
    ultimately show ?thesis using l res by blast
  qed
  with e(1) show ?thesis by blast
qed

lemma degenerate_run:
  "fst (drawArrays willingBackend sceneData GL_TRIANGLES 0 0 1 (newRenderer 100)) = Returned NoError"
  "deviceCalls (snd (drawArrays willingBackend sceneData GL_TRIANGLES 0 0 1 (newRenderer 100)))
     = [UpdateSamplerMapping, GenerateSwizzle 11, ApplyPrimitiveType GL_TRIANGLES 0]"
  by (simp_all add: run_defs scene_defs)

theorem no_geometry_returns_success_witness:
  "deviceCalls (snd (drawArrays willingBackend sceneData GL_TRIANGLES 0 0 1 (newRenderer 100)))
     = [UpdateSamplerMapping, GenerateSwizzle 11, ApplyPrimitiveType GL_TRIANGLES 0] \<and>
   \<not> primitiveTypeResult willingBackend [UpdateSamplerMapping, GenerateSwizzle 11] GL_TRIANGLES 0 \<and>
   fst (drawArrays willingBackend sceneData GL_TRIANGLES 0 0 1 (newRenderer 100)) = Returned NoError \<and>
   filter isDraw
     (deviceCalls (snd (drawArrays willingBackend sceneData GL_TRIANGLES 0 0 1 (newRenderer 100)))) = [] \<and>
   filter isStateChange
     (deviceCalls (snd (drawArrays willingBackend sceneData GL_TRIANGLES 0 0 1 (newRenderer 100)))) = []"
proof -
  let ?run = "drawArrays willingBackend sceneData GL_TRIANGLES 0 0 1 (newRenderer 100)"
  let ?evs = "[UpdateSamplerMapping, GenerateSwizzle 11, ApplyPrimitiveType GL_TRIANGLES 0]"
  have run: "?run = (fst ?run, snd ?run)" by simp
  have nil: "deviceCalls (newRenderer 100) = []" by (simp add: newRenderer_def)
  from no_geometry_returns_success[OF disjI1[OF run]] obtain evs where
    e: "deviceCalls (snd ?run) = deviceCalls (newRenderer 100) @ evs"
    and gate: "\<forall>i < length evs. evs ! i = ApplyPrimitiveType GL_TRIANGLES 0 \<and>
          \<not> primitiveTypeResult willingBackend (deviceCalls (newRenderer 100) @ take i evs) GL_TRIANGLES 0 \<longrightarrow>
        fst ?run = Returned NoError \<and> Suc i = length evs \<and>
        (\<forall>ev \<in> set evs. \<not> isDraw ev \<and> \<not> isStateChange ev) \<and>
        (\<forall>j < i. evs ! j = UpdateSamplerMapping \<or> (\<exists>texture. evs ! j = GenerateSwizzle texture))"
    by blast
  have evs: "evs = ?evs" using e by (simp add: nil degenerate_run(2))
  have no: "\<not> primitiveTypeResult willingBackend [UpdateSamplerMapping, GenerateSwizzle 11] GL_TRIANGLES 0"
    by (simp add: willingBackend_def)
  have "2 < length ?evs \<and> ?evs ! 2 = ApplyPrimitiveType GL_TRIANGLES 0 \<and>
     \<not> primitiveTypeResult willingBackend ([] @ take 2 ?evs) GL_TRIANGLES 0"
    using no by simp
  with gate[unfolded evs nil] have
    "fst ?run = Returned NoError \<and> (\<forall>ev \<in> set ?evs. \<not> isDraw ev \<and> \<not> isStateChange ev)"
    by blast
  then have "fst ?run = Returned NoError \<and> filter isDraw ?evs = [] \<and> filter isStateChange ?evs = []"
    by (simp add: filter_empty_conv)
  with no show ?thesis by (simp add: degenerate_run(2))
qed

lemma points_run:
  "fst (drawArrays willingBackend sceneData GL_POINTS 0 3 1 (newRenderer 100)) = Returned NoError"
  "filter isDraw (deviceCalls (snd (drawArrays willingBackend sceneData GL_POINTS 0 3 1 (newRenderer 100)))) = []"
  by (simp_all add: run_defs scene_defs isDraw_def)

lemma unbound_run:
  "fst (drawArrays willingBackend unboundScene GL_TRIANGLES 0 3 1 (newRenderer 100))
     = Returned unboundUniformBuffer"
  "fst (drawArrays willingBackend unboundScene GL_POINTS 0 3 1 (newRenderer 100))
     = Returned unboundUniformBuffer"
  "fst (drawArrays willingBackend unboundScene GL_TRIANGLES 0 0 1 (newRenderer 100)) = Returned NoError"
  by (simp_all add: run_defs scene_defs)

lemma unboundBlock_unboundScene: "unboundBlock unboundScene"
  by (simp add: unboundBlock_def unboundScene_def sceneData_def sceneState_def)

lemma not_unboundBlock_sceneData: "\<not> unboundBlock sceneData"
  by (simp add: unboundBlock_def sceneData_def sceneState_def)

lemma skips_points: "\<not> usesPointSize (programBinary data) \<Longrightarrow> skips data GL_POINTS"
  by (simp add: skips_def skipDraw_def)

text \<open>
  C9, as stated, fails: a draw of points with a program that does not write the point
  size returns the invalid-operation error of \<open>applyUniformBuffers\<close> when a uniform
  block is unbound, and the error of \<open>applyShaders\<close> when that call fails. The skip is
  decided only after every step before it has succeeded.
\<close>

theorem points_draw_can_fail:
  "\<not> usesPointSize (programBinary unboundScene) \<and>
   fst (drawArrays willingBackend unboundScene GL_POINTS 0 3 1 (newRenderer 100))
     = Returned unboundUniformBuffer \<and>
   isError unboundUniformBuffer \<and>
   \<not> usesPointSize (programBinary sceneData) \<and>
   fst (drawArrays failingShaders sceneData GL_POINTS 0 3 1 (newRenderer 100)) = Returned deviceLost \<and>
   isError deviceLost"
  by (simp add: unbound_run shaders_run)
     (simp add: unboundScene_def sceneData_def isError_def unboundUniformBuffer_def deviceLost_def)

text \<open>
  C9, as amended. For points and a program that does not write the point size,
  \<open>skipDraw\<close> answers skip and logs a diagnostic, making no call and raising no error.
  A draw of such points issues no draw call, and it ends in one of four ways: it returns
  \<open>GL_NO_ERROR\<close>; one of its calls failed, which is then its last call, and that error
  is returned; \<open>applyUniformBuffers\<close> found an unbound uniform block and its
  invalid-operation error is returned; or an assertion failed and the call did not
  return. So the call succeeds whenever no call fails, no uniform block is unbound and
  no assertion fails.
\<close>

theorem points_without_point_size_skipped:
  assumes "\<not> usesPointSize (programBinary data)"
    and "drawArrays env data GL_POINTS first count instances r = (res, r') \<or>
         drawElements env data GL_POINTS count type indices instances indexRange0 r = (res, r')"
  shows "skipDraw data GL_POINTS r0 =
           (True, r0\<lparr>diagnostics := diagnostics r0 @
                        [''Point rendering without writing to gl_PointSize.'']\<rparr>) \<and>
         (\<exists>evs. deviceCalls r' = deviceCalls r @ evs \<and> (\<forall>ev \<in> set evs. \<not> isDraw ev) \<and>
            (res = Returned NoError \<or>
             (\<exists>e. res = Returned e \<and> isError e \<and> stoppedBy env (deviceCalls r) evs e) \<or>
             (res = Returned unboundUniformBuffer \<and> unboundBlock data) \<or>
             res = AssertFailed) \<and>
            (unfailing env (deviceCalls r) evs \<and> \<not> unboundBlock data \<and> res \<noteq> AssertFailed \<longrightarrow>
               res = Returned NoError))"
proof -
  from draw_pipeline[OF assms(2)] obtain evs where e: "deviceCalls r' = deviceCalls r @ evs"
    "pipelineRun env data GL_POINTS count (deviceCalls r) evs res" by blast
  from assms(1) have "skips data GL_POINTS \<or> unboundBlock data" by (simp add: skips_points)
  with e(2) have nodraw: "\<forall>ev \<in> set evs. \<not> isDraw ev" by (rule pipelineRun_no_draw)
  note ok = pipelineRun_runOK[OF e(2)]
  have ways: "res = Returned NoError \<or>
             (\<exists>e. res = Returned e \<and> isError e \<and> stoppedBy env (deviceCalls r) evs e) \<or>
             (res = Returned unboundUniformBuffer \<and> unboundBlock data) \<or>
             res = AssertFailed"
  proof (cases res)
    case AssertFailed
    then show ?thesis by simp
  next
    case (Returned e')
    show ?thesis
    proof (cases "isError e'")
      case True
      with ok Returned
      have "(ownError data e' \<and> unfailing env (deviceCalls r) evs) \<or>
            stoppedBy env (deviceCalls r) evs e'"
        by (simp add: runOK_def)
      with Returned True show ?thesis by (auto simp: ownError_def)
    next
      case False
      with e(2) Returned have "e' = NoError" by (rule pipelineRun_success)
      with Returned show ?thesis by simp
    qed
  qed
  have quiet: "res = Returned NoError"
    if q: "unfailing env (deviceCalls r) evs \<and> \<not> unboundBlock data \<and> res \<noteq> AssertFailed"
  proof -
    have "\<not> stoppedBy env (deviceCalls r) evs e'" for e'
    proof
      assume st: "stoppedBy env (deviceCalls r) evs e'"
      then have ne: "evs \<noteq> []" and f: "failsAt env (deviceCalls r @ butlast evs) (last evs)"
        by (simp_all add: stoppedBy_def)
      from q have "unfailing env (deviceCalls r) (butlast evs @ [last evs])" using ne by simp
      then have "\<not> failsAt env (deviceCalls r @ butlast evs) (last evs)"
        by (simp add: unfailing_append)
      with f show False by simp
    qed
    with ways q show ?thesis by blast
  qed
  have skip: "skipDraw data GL_POINTS r0 =
           (True, r0\<lparr>diagnostics := diagnostics r0 @
                        [''Point rendering without writing to gl_PointSize.'']\<rparr>)"
    using assms(1) by (simp add: skipDraw_def)
  from e(1) nodraw ways quiet skip show ?thesis by blast
qed

theorem points_without_point_size_skipped_witness:
  "\<not> usesPointSize (programBinary sceneData) \<and>
   fst (skipDraw sceneData GL_POINTS (newRenderer 100)) \<and>
   diagnostics (snd (skipDraw sceneData GL_POINTS (newRenderer 100)))
     = [''Point rendering without writing to gl_PointSize.''] \<and>
   fst (drawArrays willingBackend sceneData GL_POINTS 0 3 1 (newRenderer 100)) = Returned NoError \<and>
   filter isDraw
     (deviceCalls (snd (drawArrays willingBackend sceneData GL_POINTS 0 3 1 (newRenderer 100)))) = []"
proof -
  let ?run = "drawArrays willingBackend sceneData GL_POINTS 0 3 1 (newRenderer 100)"
  have run: "?run = (fst ?run, snd ?run)" by simp
  have nil: "deviceCalls (newRenderer 100) = []" "diagnostics (newRenderer 100) = []"
    by (simp_all add: newRenderer_def)
  have ps: "\<not> usesPointSize (programBinary sceneData)" by (simp add: sceneData_def)
  note inst = points_without_point_size_skipped[OF ps disjI1[OF run], of "newRenderer 100"]
  from inst have skip: "skipDraw sceneData GL_POINTS (newRenderer 100) =
           (True, (newRenderer 100)\<lparr>diagnostics := diagnostics (newRenderer 100) @
                        [''Point rendering without writing to gl_PointSize.'']\<rparr>)"
    by (rule conjunct1)
  from inst obtain evs where evs: "deviceCalls (snd ?run) = deviceCalls (newRenderer 100) @ evs"
    "\<forall>ev \<in> set evs. \<not> isDraw ev"
    "unfailing willingBackend (deviceCalls (newRenderer 100)) evs \<and> \<not> unboundBlock sceneData \<and>
       fst ?run \<noteq> AssertFailed \<longrightarrow> fst ?run = Returned NoError"
    by blast
  have "\<not> failsAt willingBackend tr ev" for tr ev
    by (simp add: failsAt_def willingBackend_def isError_def NoError_def)
  then have "unfailing willingBackend tr xs" for tr xs
    by (induction xs arbitrary: tr) simp_all
  moreover have "fst ?run \<noteq> AssertFailed" by (simp add: points_run(1))
  ultimately have res: "fst ?run = Returned NoError"
    using evs(3) not_unboundBlock_sceneData by blast
  from evs(1,2) have "\<forall>ev \<in> set (deviceCalls (snd ?run)). \<not> isDraw ev" by (auto simp: nil)
  then have "filter isDraw (deviceCalls (snd ?run)) = []" by (simp add: filter_empty_conv)
  with ps skip res show ?thesis by (simp add: nil)
qed

text \<open>
  C3, as stated, fails: with an unbound uniform block, a draw of no geometry returns
  \<open>GL_NO_ERROR\<close>, since \<open>applyPrimitiveType\<close> ends it before the uniform buffers are
  looked at.
\<close>

theorem unbound_block_draw_can_succeed:
  "unboundBlock unboundScene \<and>
   fst (drawArrays willingBackend unboundScene GL_TRIANGLES 0 0 1 (newRenderer 100)) = Returned NoError \<and>
   \<not> isError NoError"
  by (simp add: unbound_run unboundBlock_unboundScene) (simp add: isError_def NoError_def)

text \<open>
  C3, as amended. When some active uniform block has no buffer at its binding point
  (the buffer there has id zero), \<open>applyUniformBuffers\<close> makes no call and returns an
  error of code \<open>GL_INVALID_OPERATION\<close> with a message. A draw in that state issues no
  draw call, and it returns that error unless it ended earlier: an assertion failed, one
  of its calls failed and that error is returned, or \<open>applyPrimitiveType\<close> answered
  false and the draw returned \<open>GL_NO_ERROR\<close>.
\<close>

theorem unbound_uniform_block_rejected:
  assumes "unboundBlock data"
    and "drawArrays env data mode first count instances r = (res, r') \<or>
         drawElements env data mode count type indices instances indexRange0 r = (res, r')"
  shows "applyUniformBuffers env data r0 = (Returned unboundUniformBuffer, r0) \<and>
         errorCode unboundUniformBuffer = GL_INVALID_OPERATION \<and>
         isError unboundUniformBuffer \<and> errorMessage unboundUniformBuffer \<noteq> [] \<and>
         (\<exists>evs. deviceCalls r' = deviceCalls r @ evs \<and> (\<forall>ev \<in> set evs. \<not> isDraw ev) \<and>
            (res = AssertFailed \<or> res = Returned unboundUniformBuffer \<or>
             (\<exists>e. res = Returned e \<and> stoppedBy env (deviceCalls r) evs e) \<or>
             (res = Returned NoError \<and> evs \<noteq> [] \<and> last evs = ApplyPrimitiveType mode count \<and>
              \<not> primitiveTypeResult env (deviceCalls r @ butlast evs) mode count)))"
proof -
  from draw_pipeline[OF assms(2)] obtain evs where e: "deviceCalls r' = deviceCalls r @ evs"
    "pipelineRun env data mode count (deviceCalls r) evs res" by blast
  from assms(1) have "skips data mode \<or> unboundBlock data" by simp
  with e(2) have nodraw: "\<forall>ev \<in> set evs. \<not> isDraw ev" by (rule pipelineRun_no_draw)
  note out = pipelineRun_unbound[OF e(2) assms(1)]
  have own: "applyUniformBuffers env data r0 = (Returned unboundUniformBuffer, r0)"
    using assms(1) by (rule applyUniformBuffers_unbound)
  have err: "errorCode unboundUniformBuffer = GL_INVALID_OPERATION \<and>
         isError unboundUniformBuffer \<and> errorMessage unboundUniformBuffer \<noteq> []"
    by (simp add: unboundUniformBuffer_def isError_def)
  from e(1) nodraw out own err show ?thesis by blast
qed

theorem unbound_uniform_block_rejected_witness:
  "unboundBlock unboundScene \<and>
   applyUniformBuffers willingBackend unboundScene (newRenderer 100)
     = (Returned unboundUniformBuffer, newRenderer 100) \<and>
   errorCode unboundUniformBuffer = GL_INVALID_OPERATION \<and>
   fst (drawArrays willingBackend unboundScene GL_TRIANGLES 0 3 1 (newRenderer 100))
     = Returned unboundUniformBuffer \<and>
   filter isDraw
     (deviceCalls (snd (drawArrays willingBackend unboundScene GL_TRIANGLES 0 3 1 (newRenderer 100)))) = []"
proof -
  let ?run = "drawArrays willingBackend unboundScene GL_TRIANGLES 0 3 1 (newRenderer 100)"
  have run: "?run = (fst ?run, snd ?run)" by simp
  have nil: "deviceCalls (newRenderer 100) = []" by (simp add: newRenderer_def)
  from unbound_uniform_block_rejected[OF unboundBlock_unboundScene disjI1[OF run], of "newRenderer 100"]
  have own: "applyUniformBuffers willingBackend unboundScene (newRenderer 100)
       = (Returned unboundUniformBuffer, newRenderer 100)"
    and code: "errorCode unboundUniformBuffer = GL_INVALID_OPERATION"
    and "\<exists>evs. deviceCalls (snd ?run) = deviceCalls (newRenderer 100) @ evs \<and>
           (\<forall>ev \<in> set evs. \<not> isDraw ev)"
    by blast+
  then have "\<forall>ev \<in> set (deviceCalls (snd ?run)). \<not> isDraw ev" by (auto simp: nil)
  then have "filter isDraw (deviceCalls (snd ?run)) = []" by (simp add: filter_empty_conv)
  with own code unbound_run(1) unboundBlock_unboundScene show ?thesis by simp
qed

subsection \<open>The serials of the framebuffer and the search in them\<close>

lemma count_list_insort: "count_list (insort x xs) y = count_list (x # xs) y"
  by (induction xs) auto

lemma count_list_sort: "count_list (sort xs) y = count_list xs y"
  by (induction xs) (simp_all add: count_list_insort)

lemma sorted_getBoundFramebufferTextureSerials: "sorted (getBoundFramebufferTextureSerials data)"
  by (simp add: getBoundFramebufferTextureSerials_def Let_def)

lemma lower_bound_range:
  assumes "sorted xs" "first + count \<le> length xs"
    "\<forall>i < first. xs ! i < v" "\<forall>i. first + count \<le> i \<and> i < length xs \<longrightarrow> v \<le> xs ! i"
  shows "lower_bound xs first count v \<le> length xs \<and>
         (\<forall>i < lower_bound xs first count v. xs ! i < v) \<and>
         (\<forall>i. lower_bound xs first count v \<le> i \<and> i < length xs \<longrightarrow> v \<le> xs ! i)"
  using assms
proof (induction xs first count v rule: lower_bound.induct)
  case (1 xs first count v)
  show ?case
  proof (cases "0 < count")
    case False
    with 1(3-) show ?thesis by (simp add: lower_bound.simps)
  next
    case True
    define half where "half = count div 2"
    define it where "it = first + half"
    have it: "it < length xs" "it < first + count" using True 1(4) by (simp_all add: it_def half_def)
    show ?thesis
    proof (cases "xs ! it < v")
      case lt: True
      have eq: "lower_bound xs first count v = lower_bound xs (it + 1) (count - (half + 1)) v"
        using True lt by (subst lower_bound.simps) (simp add: it_def half_def Let_def)
      have below: "\<forall>i < it + 1. xs ! i < v"
      proof (intro allI impI)
        fix i assume "i < it + 1"
        then have "i \<le> it" by simp
        with \<open>sorted xs\<close> it(1) have "xs ! i \<le> xs ! it" by (simp add: sorted_nth_mono)
        with lt show "xs ! i < v" by simp
      qed
      have "it + 1 + (count - (half + 1)) = first + count"
        using True by (simp add: it_def half_def)
      with 1(1)[OF True half_def[symmetric, THEN eq_reflection, THEN meta_eq_to_obj_eq, symmetric]
                 it_def[symmetric, THEN eq_reflection, THEN meta_eq_to_obj_eq, symmetric] lt \<open>sorted xs\<close>]
        below 1(4,6)
      show ?thesis unfolding eq by simp
    next
      case ge: False
      have eq: "lower_bound xs first count v = lower_bound xs first half v"
        using True ge by (subst lower_bound.simps) (simp add: it_def half_def Let_def)
      have above: "\<forall>i. first + half \<le> i \<and> i < length xs \<longrightarrow> v \<le> xs ! i"
      proof (intro allI impI)
        fix i assume i: "first + half \<le> i \<and> i < length xs"
        then have "xs ! it \<le> xs ! i" using \<open>sorted xs\<close> by (simp add: sorted_nth_mono it_def)
        with ge show "v \<le> xs ! i" by simp
      qed
      have "first + half \<le> length xs" using it(1) by (simp add: it_def)
      with 1(2)[OF True half_def[symmetric, THEN eq_reflection, THEN meta_eq_to_obj_eq, symmetric]
                 it_def[symmetric, THEN eq_reflection, THEN meta_eq_to_obj_eq, symmetric] ge \<open>sorted xs\<close>]
        above 1(5)
      show ?thesis unfolding eq by simp
    qed
  qed
qed

lemma binary_search_iff:
  assumes "sorted xs"
  shows "binary_search xs v \<longleftrightarrow> v \<in> set xs"
proof -
  define k where "k = lower_bound xs 0 (length xs) v"
  have "lower_bound xs 0 (length xs) v \<le> length xs \<and>
         (\<forall>i < lower_bound xs 0 (length xs) v. xs ! i < v) \<and>
         (\<forall>i. lower_bound xs 0 (length xs) v \<le> i \<and> i < length xs \<longrightarrow> v \<le> xs ! i)"
    using assms by (rule lower_bound_range) auto
  then have k: "k \<le> length xs" "\<forall>i < k. xs ! i < v" "\<forall>i. k \<le> i \<and> i < length xs \<longrightarrow> v \<le> xs ! i"
    by (simp_all add: k_def)
  have bs: "binary_search xs v \<longleftrightarrow> k \<noteq> length xs \<and> \<not> v < xs ! k"
    by (simp add: binary_search_def k_def Let_def)
  show ?thesis
  proof
    assume "binary_search xs v"
    with bs k(1) have "k < length xs" "\<not> v < xs ! k" by simp_all
    from k(3) \<open>k < length xs\<close> have "v \<le> xs ! k" by blast
    with \<open>\<not> v < xs ! k\<close> have "v = xs ! k" by simp
    with \<open>k < length xs\<close> show "v \<in> set xs" by simp
  next
    assume "v \<in> set xs"
    then obtain j where j: "j < length xs" "xs ! j = v" by (auto simp: in_set_conv_nth)
    with k(2) have "k \<le> j" by (metis less_irrefl not_le_imp_less)
    with assms j have "xs ! k \<le> v" by (auto simp: sorted_nth_mono)
    with \<open>k \<le> j\<close> j(1) bs show "binary_search xs v" by auto
  qed
qed

lemma count_list_attachmentSerials:
  "count_list (concat (map (attachmentSerial data) attachments)) serial =
     length (filter (\<lambda>attachment. case attachment of
                        Some (TextureAttachment texture) \<Rightarrow> textureSerial data texture = serial
                      | _ \<Rightarrow> False) attachments)"
  by (induction attachments)
     (auto simp: attachmentSerial_def split: option.splits FramebufferAttachment.splits)

lemma serials_of_scene: "getBoundFramebufferTextureSerials sceneData = [7, 7]"
  by (simp add: getBoundFramebufferTextureSerials_def attachmentSerial_def getColorbuffer_def
      IMPLEMENTATION_MAX_DRAW_BUFFERS_def sceneData_def sceneState_def sceneFramebuffer_def
      Let_def upt_rec)

text \<open>
  C6, as stated, fails: the serials are sorted, and nothing removes a repeated one. With
  one texture attached at two colour attachment points its serial appears twice.
\<close>

theorem serials_can_repeat:
  "colorbuffers (drawFramebuffer (state sceneData))
     = [Some (TextureAttachment 10), Some (TextureAttachment 10)] \<and>
   getBoundFramebufferTextureSerials sceneData = [7, 7] \<and>
   \<not> distinct (getBoundFramebufferTextureSerials sceneData) \<and>
   \<not> sorted_wrt (<) (getBoundFramebufferTextureSerials sceneData)"
  by (simp add: serials_of_scene) (simp add: sceneData_def sceneState_def sceneFramebuffer_def)

text \<open>
  C6, as amended. The serials that \<open>getBoundFramebufferTextureSerials\<close> returns are
  sorted ascending, not strictly: a serial appears once for every attachment point,
  among the colour attachments and the depth or stencil attachment, that holds a texture
  of that serial. The binary search of \<open>applyTextures\<close> finds exactly the serials in
  the list.
\<close>

theorem serials_sorted_with_repeats:
  "sorted (getBoundFramebufferTextureSerials data) \<and>
   count_list (getBoundFramebufferTextureSerials data) serial =
     length (filter (\<lambda>attachment. case attachment of
                        Some (TextureAttachment texture) \<Rightarrow> textureSerial data texture = serial
                      | _ \<Rightarrow> False)
               (map (getColorbuffer (drawFramebuffer (state data))) [0..<IMPLEMENTATION_MAX_DRAW_BUFFERS] @
                [depthOrStencilbuffer (drawFramebuffer (state data))])) \<and>
   (binary_search (getBoundFramebufferTextureSerials data) serial \<longleftrightarrow>
      serial \<in> set (getBoundFramebufferTextureSerials data))"
proof -
  let ?fb = "drawFramebuffer (state data)"
  have "getBoundFramebufferTextureSerials data =
          sort (concat (map (attachmentSerial data)
            (map (getColorbuffer ?fb) [0..<IMPLEMENTATION_MAX_DRAW_BUFFERS] @ [depthOrStencilbuffer ?fb])))"
    by (simp add: getBoundFramebufferTextureSerials_def Let_def comp_def)
  then have "count_list (getBoundFramebufferTextureSerials data) serial =
     length (filter (\<lambda>attachment. case attachment of
                        Some (TextureAttachment texture) \<Rightarrow> textureSerial data texture = serial
                      | _ \<Rightarrow> False)
               (map (getColorbuffer ?fb) [0..<IMPLEMENTATION_MAX_DRAW_BUFFERS] @ [depthOrStencilbuffer ?fb]))"
    by (simp only: count_list_sort count_list_attachmentSerials)
  moreover note sorted_getBoundFramebufferTextureSerials[of data]
  moreover have "binary_search (getBoundFramebufferTextureSerials data) serial \<longleftrightarrow>
      serial \<in> set (getBoundFramebufferTextureSerials data)"
    using sorted_getBoundFramebufferTextureSerials by (rule binary_search_iff)
  ultimately show ?thesis by blast
qed

theorem serials_sorted_with_repeats_witness:
  "sorted (getBoundFramebufferTextureSerials sceneData) \<and>
   count_list (getBoundFramebufferTextureSerials sceneData) 7 = 2 \<and>
   binary_search (getBoundFramebufferTextureSerials sceneData) 7 \<and>
   \<not> binary_search (getBoundFramebufferTextureSerials sceneData) 8"
proof -
  have "length (filter (\<lambda>attachment. case attachment of
                        Some (TextureAttachment texture) \<Rightarrow> textureSerial sceneData texture = 7
                      | _ \<Rightarrow> False)
               (map (getColorbuffer (drawFramebuffer (state sceneData))) [0..<IMPLEMENTATION_MAX_DRAW_BUFFERS] @
                [depthOrStencilbuffer (drawFramebuffer (state sceneData))])) = 2"
    by (simp add: getColorbuffer_def IMPLEMENTATION_MAX_DRAW_BUFFERS_def sceneData_def sceneState_def
        sceneFramebuffer_def upt_rec)
  moreover have "(7 :: 32 word) \<in> set (getBoundFramebufferTextureSerials sceneData)"
    "(8 :: 32 word) \<notin> set (getBoundFramebufferTextureSerials sceneData)"
    by (simp_all add: serials_of_scene)
  ultimately show ?thesis
    using serials_sorted_with_repeats[of sceneData 7] serials_sorted_with_repeats[of sceneData 8]
    by simp
qed

subsection \<open>The cache of incomplete textures\<close>

lemma cacheInvariant_newRenderer: "cacheInvariant (newRenderer a)"
  by (simp add: cacheInvariant_def newRenderer_def)

lemma getIncompleteTexture_hit:
  "mIncompleteTextures r type = Some p \<Longrightarrow> getIncompleteTexture env type r = (Some p, r)"
  by (simp add: getIncompleteTexture_def)

lemma getIncompleteTexture_miss:
  assumes "mIncompleteTextures r type = None" "isTextureKind type"
  shows "getIncompleteTexture env type r =
           (Some (nextAddress r),
            r\<lparr>deviceCalls := deviceCalls r @ [CreateTexture type],
               nextAddress := Suc (nextAddress r),
               createdTextures := (createdTextures r)(nextAddress r \<mapsto> type),
               mIncompleteTextures := (mIncompleteTextures r)(type \<mapsto> nextAddress r)\<rparr>)"
  using assms by (simp add: getIncompleteTexture_def callVoid_def Let_def)

lemma cacheInvariant_miss:
  assumes inv: "cacheInvariant r" and miss: "mIncompleteTextures r type = None"
    and kind: "isTextureKind type"
  shows "cacheInvariant
           (r\<lparr>deviceCalls := calls,
               nextAddress := Suc (nextAddress r),
               createdTextures := (createdTextures r)(nextAddress r \<mapsto> type),
               mIncompleteTextures := (mIncompleteTextures r)(type \<mapsto> nextAddress r)\<rparr>)"
proof -
  from inv have a: "\<And>ty p. mIncompleteTextures r ty = Some p \<Longrightarrow>
      isTextureKind ty \<and> createdTextures r p = Some ty"
    and b: "\<And>p kind. createdTextures r p = Some kind \<Longrightarrow>
      p < nextAddress r \<and> mIncompleteTextures r kind = Some p"
    unfolding cacheInvariant_def by blast+
  have fresh: "createdTextures r (nextAddress r) = None"
  proof (cases "createdTextures r (nextAddress r)")
    case (Some kind)
    from b[OF this] show ?thesis by simp
  qed simp
  show ?thesis
    unfolding cacheInvariant_def
  proof (intro conjI allI impI)
    fix ty p
    assume h: "mIncompleteTextures
        (r\<lparr>deviceCalls := calls, nextAddress := Suc (nextAddress r),
           createdTextures := (createdTextures r)(nextAddress r \<mapsto> type),
           mIncompleteTextures := (mIncompleteTextures r)(type \<mapsto> nextAddress r)\<rparr>) ty = Some p"
    show "isTextureKind ty"
      using h a kind by (cases "ty = type") auto
    show "createdTextures
        (r\<lparr>deviceCalls := calls, nextAddress := Suc (nextAddress r),
           createdTextures := (createdTextures r)(nextAddress r \<mapsto> type),
           mIncompleteTextures := (mIncompleteTextures r)(type \<mapsto> nextAddress r)\<rparr>) p = Some ty"
    proof (cases "ty = type")
      case True
      with h show ?thesis by simp
    next
      case False
      with h have m: "mIncompleteTextures r ty = Some p" by simp
      from a[OF m] have c: "createdTextures r p = Some ty" by simp
      with fresh have "p \<noteq> nextAddress r" by auto
      with c show ?thesis by simp
    qed
  next
    fix p kind
    assume h: "createdTextures
        (r\<lparr>deviceCalls := calls, nextAddress := Suc (nextAddress r),
           createdTextures := (createdTextures r)(nextAddress r \<mapsto> type),
           mIncompleteTextures := (mIncompleteTextures r)(type \<mapsto> nextAddress r)\<rparr>) p = Some kind"
    show "p < nextAddress
        (r\<lparr>deviceCalls := calls, nextAddress := Suc (nextAddress r),
           createdTextures := (createdTextures r)(nextAddress r \<mapsto> type),
           mIncompleteTextures := (mIncompleteTextures r)(type \<mapsto> nextAddress r)\<rparr>)"
      using h b by (cases "p = nextAddress r") (auto simp: less_Suc_eq)
    show "mIncompleteTextures
        (r\<lparr>deviceCalls := calls, nextAddress := Suc (nextAddress r),
           createdTextures := (createdTextures r)(nextAddress r \<mapsto> type),
           mIncompleteTextures := (mIncompleteTextures r)(type \<mapsto> nextAddress r)\<rparr>) kind = Some p"
    proof (cases "p = nextAddress r")
      case True
      with h show ?thesis by simp
    next
      case False
      with h have c: "createdTextures r p = Some kind" by simp
      from b[OF c] have m: "mIncompleteTextures r kind = Some p" by simp
      with miss have "kind \<noteq> type" by auto
      with m show ?thesis by simp
    qed
  qed
qed

lemma getIncompleteTexture_step:
  assumes inv: "cacheInvariant r" and kind: "isTextureKind type"
    and g: "getIncompleteTexture env type r = (x, r1)"
  shows "\<exists>p. x = Some p \<and> cacheInvariant r1 \<and> mIncompleteTextures r1 type = Some p \<and>
           (\<forall>k q. mIncompleteTextures r k = Some q \<longrightarrow> mIncompleteTextures r1 k = Some q)"
proof (cases "mIncompleteTextures r type")
  case None
  from g[unfolded getIncompleteTexture_miss[OF None kind]] cacheInvariant_miss[OF inv None kind]
  show ?thesis using None by auto
next
  case (Some p)
  from g getIncompleteTexture_hit[OF Some, of env] have "x = Some p" "r1 = r" by simp_all
  with inv Some show ?thesis by simp
qed

lemma cacheInvariant_injective:
  assumes "cacheInvariant r" "mIncompleteTextures r k1 = Some p" "mIncompleteTextures r k2 = Some p"
  shows "k1 = k2"
proof -
  from assms have "createdTextures r p = Some k1" "createdTextures r p = Some k2"
    unfolding cacheInvariant_def by blast+
  then show ?thesis by simp
qed

lemma cacheInvariant_one_per_kind:
  assumes "cacheInvariant r" "createdTextures r p = Some kind" "createdTextures r q = Some kind"
  shows "p = q"
proof -
  from assms have "mIncompleteTextures r kind = Some p" "mIncompleteTextures r kind = Some q"
    unfolding cacheInvariant_def by blast+
  then show ?thesis by simp
qed

lemma lookups_cache:
  assumes "cacheInvariant r" "\<forall>type \<in> set types. isTextureKind type"
    "lookups env types r = (ts, r')"
  shows "length ts = length types \<and> cacheInvariant r' \<and>
         (\<forall>k q. mIncompleteTextures r k = Some q \<longrightarrow> mIncompleteTextures r' k = Some q) \<and>
         (\<forall>i < length types. \<exists>p. ts ! i = Some p \<and> mIncompleteTextures r' (types ! i) = Some p)"
  using assms
proof (induction types arbitrary: r ts r')
  case Nil
  then show ?case by simp
next
  case (Cons type types)
  obtain x r1 where g: "getIncompleteTexture env type r = (x, r1)"
    by (cases "getIncompleteTexture env type r")
  obtain ts1 r2 where l: "lookups env types r1 = (ts1, r2)"
    by (cases "lookups env types r1")
  from Cons.prems(3) g l have ts: "ts = x # ts1" and r': "r' = r2" by simp_all
  from Cons.prems(2) have kind: "isTextureKind type" and kinds: "\<forall>type \<in> set types. isTextureKind type"
    by simp_all
  from getIncompleteTexture_step[OF Cons.prems(1) kind g] obtain p where
    p: "x = Some p" "cacheInvariant r1" "mIncompleteTextures r1 type = Some p"
      "\<forall>k q. mIncompleteTextures r k = Some q \<longrightarrow> mIncompleteTextures r1 k = Some q"
    by blast
  from Cons.IH[OF p(2) kinds l] have ih: "length ts1 = length types" "cacheInvariant r2"
    "\<forall>k q. mIncompleteTextures r1 k = Some q \<longrightarrow> mIncompleteTextures r2 k = Some q"
    "\<forall>i < length types. \<exists>p. ts1 ! i = Some p \<and> mIncompleteTextures r2 (types ! i) = Some p"
    by blast+
  have "\<exists>p. ts ! i = Some p \<and> mIncompleteTextures r' ((type # types) ! i) = Some p"
    if "i < length (type # types)" for i
  proof (cases i)
    case 0
    with p(1,3) ih(3) show ?thesis by (simp add: ts r')
  next
    case (Suc j)
    with that have "j < length types" by simp
    with ih(4) have "\<exists>p. ts1 ! j = Some p \<and> mIncompleteTextures r2 (types ! j) = Some p" by blast
    with Suc show ?thesis by (simp add: ts r')
  qed
  then have "\<forall>i < length (type # types).
      \<exists>p. ts ! i = Some p \<and> mIncompleteTextures r' ((type # types) ! i) = Some p" by blast
  moreover have "length ts = length (type # types)" using ih(1) by (simp add: ts)
  moreover have "\<forall>k q. mIncompleteTextures r k = Some q \<longrightarrow> mIncompleteTextures r' k = Some q"
    using p(4) ih(3) by (simp add: r')
  ultimately show ?case using ih(2) unfolding r' by blast
qed

text \<open>
  C8. One lookup of a texture kind in the cache of incomplete textures: on a hit it
  returns the stored placeholder and changes nothing; on a miss it creates one texture of
  that kind, at an address no object had, with one \<^verbatim>\<open>createTexture\<close> call, and stores
  it. Over a lifetime, that is from a state the constructor left or that earlier lookups
  reached, any sequence of lookups of texture kinds returns a placeholder each time, the
  same one for the same kind and different ones for different kinds; the placeholders
  already stored stay, and at no time has the renderer created two placeholders of one
  kind.
\<close>

theorem incomplete_texture_cache:
  "cacheInvariant (newRenderer a) \<and>
   (mIncompleteTextures r type = Some p \<longrightarrow> getIncompleteTexture env type r = (Some p, r)) \<and>
   (cacheInvariant r \<and> isTextureKind type \<and> mIncompleteTextures r type = None \<longrightarrow>
      createdTextures r (nextAddress r) = None \<and>
      (\<forall>q. createdTextures r q \<noteq> Some type) \<and>
      (\<exists>r1. getIncompleteTexture env type r = (Some (nextAddress r), r1) \<and>
            deviceCalls r1 = deviceCalls r @ [CreateTexture type] \<and>
            createdTextures r1 = (createdTextures r)(nextAddress r \<mapsto> type) \<and>
            mIncompleteTextures r1 = (mIncompleteTextures r)(type \<mapsto> nextAddress r))) \<and>
   (cacheInvariant r \<and> (\<forall>type \<in> set types. isTextureKind type) \<and> lookups env types r = (ts, r') \<longrightarrow>
      length ts = length types \<and> cacheInvariant r' \<and>
      (\<forall>i < length types. \<forall>j < length types.
         (\<exists>t. ts ! i = Some t \<and> mIncompleteTextures r' (types ! i) = Some t \<and>
              createdTextures r' t = Some (types ! i)) \<and>
         (ts ! i = ts ! j \<longleftrightarrow> types ! i = types ! j)) \<and>
      (\<forall>k q. mIncompleteTextures r k = Some q \<longrightarrow> mIncompleteTextures r' k = Some q) \<and>
      (\<forall>t u kind. createdTextures r' t = Some kind \<and> createdTextures r' u = Some kind \<longrightarrow> t = u))"
proof (intro conjI impI)
  show "cacheInvariant (newRenderer a)" by (rule cacheInvariant_newRenderer)
next
  assume "mIncompleteTextures r type = Some p"
  then show "getIncompleteTexture env type r = (Some p, r)" by (rule getIncompleteTexture_hit)
next
  assume h: "cacheInvariant r \<and> isTextureKind type \<and> mIncompleteTextures r type = None"
  then have b: "\<And>p kind. createdTextures r p = Some kind \<Longrightarrow>
      p < nextAddress r \<and> mIncompleteTextures r kind = Some p"
    unfolding cacheInvariant_def by blast
  show "createdTextures r (nextAddress r) = None"
  proof (cases "createdTextures r (nextAddress r)")
    case (Some kind)
    from b[OF this] show ?thesis by simp
  qed simp
  show "\<forall>q. createdTextures r q \<noteq> Some type"
  proof (intro allI notI)
    fix q assume "createdTextures r q = Some type"
    from b[OF this] h show False by simp
  qed
  from h show "\<exists>r1. getIncompleteTexture env type r = (Some (nextAddress r), r1) \<and>
            deviceCalls r1 = deviceCalls r @ [CreateTexture type] \<and>
            createdTextures r1 = (createdTextures r)(nextAddress r \<mapsto> type) \<and>
            mIncompleteTextures r1 = (mIncompleteTextures r)(type \<mapsto> nextAddress r)"
    by (simp add: getIncompleteTexture_miss)
next
  assume h: "cacheInvariant r \<and> (\<forall>type \<in> set types. isTextureKind type) \<and>
             lookups env types r = (ts, r')"
  then have l: "length ts = length types" "cacheInvariant r'"
    "\<forall>k q. mIncompleteTextures r k = Some q \<longrightarrow> mIncompleteTextures r' k = Some q"
    "\<forall>i < length types. \<exists>p. ts ! i = Some p \<and> mIncompleteTextures r' (types ! i) = Some p"
    using lookups_cache[of r types env ts r'] by blast+
  show "length ts = length types" by (rule l(1))
  show "cacheInvariant r'" by (rule l(2))
  show "\<forall>k q. mIncompleteTextures r k = Some q \<longrightarrow> mIncompleteTextures r' k = Some q" by (rule l(3))
  show "\<forall>t u kind. createdTextures r' t = Some kind \<and> createdTextures r' u = Some kind \<longrightarrow> t = u"
    using cacheInvariant_one_per_kind[OF l(2)] by blast
  show "\<forall>i < length types. \<forall>j < length types.
         (\<exists>t. ts ! i = Some t \<and> mIncompleteTextures r' (types ! i) = Some t \<and>
              createdTextures r' t = Some (types ! i)) \<and>
         (ts ! i = ts ! j \<longleftrightarrow> types ! i = types ! j)"
  proof (intro allI impI)
    fix i j assume i: "i < length types" and j: "j < length types"
    from l(4) i obtain t where t: "ts ! i = Some t" "mIncompleteTextures r' (types ! i) = Some t"
      by blast
    from l(4) j have u: "ts ! j = mIncompleteTextures r' (types ! j)" by auto
    from l(2) t(2) have c: "createdTextures r' t = Some (types ! i)"
      unfolding cacheInvariant_def by blast
    have "ts ! i = ts ! j \<longleftrightarrow> types ! i = types ! j"
    proof
      assume "ts ! i = ts ! j"
      with t u have "mIncompleteTextures r' (types ! j) = Some t" by simp
      with l(2) t(2) show "types ! i = types ! j" by (rule cacheInvariant_injective)
    next
      assume "types ! i = types ! j"
      with t u show "ts ! i = ts ! j" by simp
    qed
    with t c show "(\<exists>t. ts ! i = Some t \<and> mIncompleteTextures r' (types ! i) = Some t \<and>
              createdTextures r' t = Some (types ! i)) \<and>
         (ts ! i = ts ! j \<longleftrightarrow> types ! i = types ! j)" by simp
  qed
qed

lemma lookups_scene:
  "fst (lookups willingBackend [GL_TEXTURE_2D, GL_TEXTURE_CUBE_MAP, GL_TEXTURE_2D] (newRenderer 100))
     = [Some 100, Some 101, Some 100]"
  "deviceCalls (snd (lookups willingBackend [GL_TEXTURE_2D, GL_TEXTURE_CUBE_MAP, GL_TEXTURE_2D]
                       (newRenderer 100)))
     = [CreateTexture GL_TEXTURE_2D, CreateTexture GL_TEXTURE_CUBE_MAP]"
  by (simp_all add: getIncompleteTexture_def isTextureKind_def callVoid_def newRenderer_def Let_def)

theorem incomplete_texture_cache_witness:
  "cacheInvariant (newRenderer 100) \<and>
   fst (lookups willingBackend [GL_TEXTURE_2D, GL_TEXTURE_CUBE_MAP, GL_TEXTURE_2D] (newRenderer 100))
     = [Some 100, Some 101, Some 100] \<and>
   deviceCalls (snd (lookups willingBackend [GL_TEXTURE_2D, GL_TEXTURE_CUBE_MAP, GL_TEXTURE_2D]
                       (newRenderer 100)))
     = [CreateTexture GL_TEXTURE_2D, CreateTexture GL_TEXTURE_CUBE_MAP] \<and>
   cacheInvariant (snd (lookups willingBackend [GL_TEXTURE_2D, GL_TEXTURE_CUBE_MAP, GL_TEXTURE_2D]
                          (newRenderer 100))) \<and>
   mIncompleteTextures (snd (lookups willingBackend [GL_TEXTURE_2D, GL_TEXTURE_CUBE_MAP, GL_TEXTURE_2D]
                          (newRenderer 100))) GL_TEXTURE_CUBE_MAP = Some 101"
proof -
  let ?types = "[GL_TEXTURE_2D, GL_TEXTURE_CUBE_MAP, GL_TEXTURE_2D] :: GLenum list"
  let ?run = "lookups willingBackend ?types (newRenderer 100)"
  note inst = incomplete_texture_cache[of 100 "newRenderer 100" GL_TEXTURE_2D 0 willingBackend ?types
      "fst ?run" "snd ?run"]
  from inst have new: "cacheInvariant (newRenderer 100)" by (rule conjunct1)
  have kinds: "\<forall>type \<in> set ?types. isTextureKind type" by (simp add: isTextureKind_def)
  note lookups.simps [simp del]
  from inst new kinds have inv: "cacheInvariant (snd ?run)"
    and each: "\<forall>i < length ?types. \<forall>j < length ?types.
         (\<exists>t. fst ?run ! i = Some t \<and> mIncompleteTextures (snd ?run) (?types ! i) = Some t \<and>
              createdTextures (snd ?run) t = Some (?types ! i)) \<and>
         (fst ?run ! i = fst ?run ! j \<longleftrightarrow> ?types ! i = ?types ! j)"
    by simp_all
  have "(1 :: nat) < length ?types" by simp
  with each have "\<exists>t. fst ?run ! 1 = Some t \<and> mIncompleteTextures (snd ?run) (?types ! 1) = Some t"
    by blast
  then have "mIncompleteTextures (snd ?run) GL_TEXTURE_CUBE_MAP = Some 101"
    by (simp add: lookups_scene(1))
  with new inv lookups_scene show ?thesis by simp
qed

subsection \<open>The textures that applyTextures binds\<close>

lemma cacheOwned_calls [simp]: "cacheOwned (r\<lparr>deviceCalls := calls\<rparr>) = cacheOwned r"
  by (simp add: cacheOwned_def)

lemma clientTextures_calls [simp]:
  "clientTextures data (r\<lparr>deviceCalls := calls\<rparr>) = clientTextures data r"
  by (simp add: clientTextures_def)

lemma getIncompleteTexture_owned:
  assumes own: "cacheOwned r" and client: "clientTextures data r"
    and g: "getIncompleteTexture env type r = (x, r1)"
  shows "cacheOwned r1 \<and> clientTextures data r1 \<and>
     (\<forall>k q. mIncompleteTextures r k = Some q \<longrightarrow> mIncompleteTextures r1 k = Some q) \<and>
     (\<exists>evs. deviceCalls r1 = deviceCalls r @ evs \<and> (\<forall>ev \<in> set evs. \<exists>kind. ev = CreateTexture kind)) \<and>
     (\<forall>p. x = Some p \<longrightarrow> mIncompleteTextures r1 type = Some p \<and>
            (\<forall>unit ty. p \<noteq> samplerTexture (state data) unit ty))"
proof (cases "mIncompleteTextures r type")
  case (Some p)
  with g have x: "x = Some p" "r1 = r" by (simp_all add: getIncompleteTexture_def)
  from own Some have "createdTextures r p \<noteq> None" unfolding cacheOwned_def by blast
  moreover from client have "\<And>unit ty. createdTextures r (samplerTexture (state data) unit ty) = None"
    unfolding clientTextures_def by blast
  ultimately have "\<forall>unit ty. p \<noteq> samplerTexture (state data) unit ty" by metis
  with x own client Some show ?thesis by (intro conjI exI[of _ "[]"]) simp_all
next
  case None
  show ?thesis
  proof (cases "\<not> isTextureKind type \<and> assertionsEnabled env")
    case True
    with g None have "x = None" "r1 = r" by (simp_all add: getIncompleteTexture_def)
    with own client show ?thesis by (intro conjI exI[of _ "[]"]) simp_all
  next
    case False
    define kind where "kind = (if isTextureKind type then type else GL_TEXTURE_2D)"
    define n where "n = nextAddress r"
    from g None False have x: "x = Some n"
      and r1: "r1 = r\<lparr>deviceCalls := deviceCalls r @ [CreateTexture kind],
                     nextAddress := Suc n,
                     createdTextures := (createdTextures r)(n \<mapsto> kind),
                     mIncompleteTextures := (mIncompleteTextures r)(type \<mapsto> n)\<rparr>"
      by (auto simp: getIncompleteTexture_def callVoid_def Let_def kind_def n_def)
    from client have c: "\<And>unit ty. samplerTexture (state data) unit ty < n"
      "\<And>unit ty. createdTextures r (samplerTexture (state data) unit ty) = None"
      unfolding clientTextures_def n_def by blast+
    have o1: "cacheOwned r1"
      unfolding cacheOwned_def
    proof (intro allI impI)
      fix k q assume h: "mIncompleteTextures r1 k = Some q"
      show "createdTextures r1 q \<noteq> None"
      proof (cases "q = n")
        case True
        then show ?thesis by (simp add: r1)
      next
        case qn: False
        with h have "k \<noteq> type" by (auto simp: r1)
        with h have "mIncompleteTextures r k = Some q" by (simp add: r1)
        with own have "createdTextures r q \<noteq> None" unfolding cacheOwned_def by blast
        with qn show ?thesis by (simp add: r1)
      qed
    qed
    have c1: "clientTextures data r1"
      unfolding clientTextures_def
    proof (intro allI conjI)
      fix unit ty
      from c(1)[of unit ty] show "samplerTexture (state data) unit ty < nextAddress r1"
        by (simp add: r1)
      from c(1)[of unit ty] c(2)[of unit ty]
      show "createdTextures r1 (samplerTexture (state data) unit ty) = None"
        by (simp add: r1)
    qed
    have kept: "\<forall>k q. mIncompleteTextures r k = Some q \<longrightarrow> mIncompleteTextures r1 k = Some q"
      using None by (auto simp: r1)
    have calls: "\<exists>evs. deviceCalls r1 = deviceCalls r @ evs \<and>
                   (\<forall>ev \<in> set evs. \<exists>kind. ev = CreateTexture kind)"
      by (intro exI[of _ "[CreateTexture kind]"]) (simp add: r1)
    have new: "\<forall>p. x = Some p \<longrightarrow> mIncompleteTextures r1 type = Some p \<and>
            (\<forall>unit ty. p \<noteq> samplerTexture (state data) unit ty)"
    proof (intro allI impI conjI)
      fix p assume "x = Some p"
      with x have p: "p = n" by simp
      then show "mIncompleteTextures r1 type = Some p" by (simp add: r1)
      fix unit ty
      from c(1)[of unit ty] p show "p \<noteq> samplerTexture (state data) unit ty" by simp
    qed
    from o1 c1 kept calls new show ?thesis by blast
  qed
qed

lemma applyTexturesLoop_head:
  assumes own: "cacheOwned r" and client: "clientTextures data r"
    and mapped: "samplerMapping (programBinary data) st0 i0 \<noteq> - 1"
    and looped: "binary_search serials (textureSerial data (resolvedTexture data st0 i0))"
    and run: "applyTexturesLoop env data st serials (i # rest) r = (res, r')"
  shows "\<exists>r1 evs1. deviceCalls r1 = deviceCalls r @ evs1 \<and> cacheOwned r1 \<and> clientTextures data r1 \<and>
      (\<forall>k q. mIncompleteTextures r k = Some q \<longrightarrow> mIncompleteTextures r1 k = Some q) \<and>
      (\<forall>x. SetTexture st0 i0 x \<in> set evs1 \<longrightarrow>
          (\<exists>p. x = Some p \<and>
               mIncompleteTextures r1 (samplerTextureType (programBinary data) st0 i0) = Some p \<and>
               p \<noteq> resolvedTexture data st0 i0)) \<and>
      (\<forall>t s. SetSamplerState st0 i0 t s \<notin> set evs1) \<and>
      ((r' = r1 \<and> (\<forall>e. res = Returned e \<longrightarrow> isError e)) \<or>
       (applyTexturesLoop env data st serials rest r1 = (res, r') \<and>
        (\<exists>x. SetTexture st i x \<in> set evs1)))"
proof -
  define ty where "ty = samplerTextureType (programBinary data) st i"
  define unit where "unit = samplerMapping (programBinary data) st i"
  define tex where "tex = samplerTexture (state data) unit ty"
  define smp where "smp = (case samplerObject (state data) unit of
                             None \<Rightarrow> textureSamplerState data tex
                           | Some getState \<Rightarrow> getState (textureSamplerState data tex))"
  define good where
    "good = (isSamplerComplete data tex smp \<and> \<not> binary_search serials (textureSerial data tex))"
  have tex: "tex = resolvedTexture data st i"
    by (simp add: tex_def unit_def ty_def resolvedTexture_def)
  have step: "applyTexturesLoop env data st serials (i # rest) r =
     (if unit \<noteq> - 1 then
        if good then
          (case call env (SetSamplerState st i tex smp) r of
             (error, r1) \<Rightarrow>
               if isError error then (Returned error, r1)
               else
                 (case call env (SetTexture st i (Some tex)) r1 of
                    (error, r2) \<Rightarrow>
                      if isError error then (Returned error, r2)
                      else applyTexturesLoop env data st serials rest r2))
        else
          (case getIncompleteTexture env ty r of
             (None, r1) \<Rightarrow> (AssertFailed, r1)
           | (Some incompleteTexture, r1) \<Rightarrow>
               (case call env (SetTexture st i (Some incompleteTexture)) r1 of
                  (error, r2) \<Rightarrow>
                    if isError error then (Returned error, r2)
                    else applyTexturesLoop env data st serials rest r2))
      else
        (case call env (SetTexture st i None) r of
           (error, r1) \<Rightarrow>
             if isError error then (Returned error, r1)
             else applyTexturesLoop env data st serials rest r1))"
    unfolding applyTexturesLoop.simps Let_def good_def smp_def tex_def unit_def ty_def
    by (rule refl)
  show ?thesis
  proof (cases "unit = - 1")
    case True
    then have other: "\<not> (st = st0 \<and> i = i0)" using mapped by (auto simp: unit_def)
    define r1 where "r1 = r\<lparr>deviceCalls := deviceCalls r @ [SetTexture st i None]\<rparr>"
    define err where "err = stepResult env (deviceCalls r) (SetTexture st i None)"
    from run[unfolded step] True have out: "(if isError err then (Returned err, r1)
        else applyTexturesLoop env data st serials rest r1) = (res, r')"
      by (simp add: call_def r1_def err_def split del: if_split cong: if_cong)
    have "deviceCalls r1 = deviceCalls r @ [SetTexture st i None]" by (simp add: r1_def)
    moreover have "cacheOwned r1" "clientTextures data r1"
      using own client by (simp_all add: r1_def)
    moreover have "\<forall>k q. mIncompleteTextures r k = Some q \<longrightarrow> mIncompleteTextures r1 k = Some q"
      by (simp add: r1_def)
    moreover have "\<forall>x. SetTexture st0 i0 x \<in> set [SetTexture st i None] \<longrightarrow>
          (\<exists>p. x = Some p \<and>
               mIncompleteTextures r1 (samplerTextureType (programBinary data) st0 i0) = Some p \<and>
               p \<noteq> resolvedTexture data st0 i0)"
      using other by auto
    moreover have "\<forall>t s. SetSamplerState st0 i0 t s \<notin> set [SetTexture st i None]" by simp
    moreover have "(r' = r1 \<and> (\<forall>e. res = Returned e \<longrightarrow> isError e)) \<or>
       (applyTexturesLoop env data st serials rest r1 = (res, r') \<and>
        (\<exists>x. SetTexture st i x \<in> set [SetTexture st i None]))"
      using out by (auto split: if_splits)
    ultimately show ?thesis by blast
  next
    case False
    show ?thesis
    proof (cases good)
      case True
      then have other: "\<not> (st = st0 \<and> i = i0)" using looped by (auto simp: tex good_def)
      define e1 where "e1 = SetSamplerState st i tex smp"
      define e2 where "e2 = SetTexture st i (Some tex)"
      define ra where "ra = r\<lparr>deviceCalls := deviceCalls r @ [e1]\<rparr>"
      define rb where "rb = r\<lparr>deviceCalls := deviceCalls r @ [e1, e2]\<rparr>"
      define err1 where "err1 = stepResult env (deviceCalls r) e1"
      define err2 where "err2 = stepResult env (deviceCalls r @ [e1]) e2"
      from run[unfolded step] False True have out: "(if isError err1 then (Returned err1, ra)
          else if isError err2 then (Returned err2, rb)
          else applyTexturesLoop env data st serials rest rb) = (res, r')"
        by (simp add: call_def e1_def e2_def ra_def rb_def err1_def err2_def
            split del: if_split cong: if_cong)
      have no1: "\<forall>x. SetTexture st0 i0 x \<in> set evs \<longrightarrow>
          (\<exists>p. x = Some p \<and>
               mIncompleteTextures r1 (samplerTextureType (programBinary data) st0 i0) = Some p \<and>
               p \<noteq> resolvedTexture data st0 i0)"
        if "set evs \<subseteq> {e1, e2}" for evs r1
        using that other by (auto simp: e1_def e2_def)
      have no2: "\<forall>t s. SetSamplerState st0 i0 t s \<notin> set evs" if "set evs \<subseteq> {e1, e2}" for evs
        using that other by (auto simp: e1_def e2_def)
      show ?thesis
      proof (cases "isError err1")
        case True
        with out have "r' = ra \<and> (\<forall>e. res = Returned e \<longrightarrow> isError e)" by auto
        moreover have "deviceCalls ra = deviceCalls r @ [e1]" by (simp add: ra_def)
        moreover have "cacheOwned ra" "clientTextures data ra"
          "\<forall>k q. mIncompleteTextures r k = Some q \<longrightarrow> mIncompleteTextures ra k = Some q"
          using own client by (simp_all add: ra_def)
        moreover have "\<forall>x. SetTexture st0 i0 x \<in> set [e1] \<longrightarrow>
          (\<exists>p. x = Some p \<and>
               mIncompleteTextures ra (samplerTextureType (programBinary data) st0 i0) = Some p \<and>
               p \<noteq> resolvedTexture data st0 i0)"
          by (rule no1) simp
        moreover have "\<forall>t s. SetSamplerState st0 i0 t s \<notin> set [e1]" by (rule no2) simp
        ultimately show ?thesis by (intro exI[of _ ra] exI[of _ "[e1]"]) blast
      next
        case False
        with out have "(r' = rb \<and> (\<forall>e. res = Returned e \<longrightarrow> isError e)) \<or>
            applyTexturesLoop env data st serials rest rb = (res, r')"
          by (auto split: if_splits)
        moreover have "deviceCalls rb = deviceCalls r @ [e1, e2]" by (simp add: rb_def)
        moreover have "cacheOwned rb" "clientTextures data rb"
          "\<forall>k q. mIncompleteTextures r k = Some q \<longrightarrow> mIncompleteTextures rb k = Some q"
          using own client by (simp_all add: rb_def)
        moreover have "\<forall>x. SetTexture st0 i0 x \<in> set [e1, e2] \<longrightarrow>
          (\<exists>p. x = Some p \<and>
               mIncompleteTextures rb (samplerTextureType (programBinary data) st0 i0) = Some p \<and>
               p \<noteq> resolvedTexture data st0 i0)"
          by (rule no1) simp
        moreover have "\<forall>t s. SetSamplerState st0 i0 t s \<notin> set [e1, e2]" by (rule no2) simp
        moreover have "\<exists>x. SetTexture st i x \<in> set [e1, e2]" by (auto simp: e2_def)
        ultimately show ?thesis by (intro exI[of _ rb] exI[of _ "[e1, e2]"]) blast
      qed
    next
      case bad: False
      obtain x ra where g: "getIncompleteTexture env ty r = (x, ra)"
        by (cases "getIncompleteTexture env ty r")
      from getIncompleteTexture_owned[OF own client g] obtain evs0 where
        a: "cacheOwned ra" "clientTextures data ra"
          "\<forall>k q. mIncompleteTextures r k = Some q \<longrightarrow> mIncompleteTextures ra k = Some q"
          "deviceCalls ra = deviceCalls r @ evs0" "\<forall>ev \<in> set evs0. \<exists>kind. ev = CreateTexture kind"
          "\<forall>p. x = Some p \<longrightarrow> mIncompleteTextures ra ty = Some p \<and>
                (\<forall>unit ty. p \<noteq> samplerTexture (state data) unit ty)"
        by blast
      have none0: "\<forall>x. SetTexture st0 i0 x \<notin> set evs0" "\<forall>t s. SetSamplerState st0 i0 t s \<notin> set evs0"
        using a(5) by auto
      show ?thesis
      proof (cases x)
        case None
        from run[unfolded step] \<open>unit \<noteq> - 1\<close> bad g None have "r' = ra" "res = AssertFailed"
          by simp_all
        with a none0 show ?thesis by (intro exI[of _ ra] exI[of _ evs0]) simp
      next
        case (Some p)
        define e2 where "e2 = SetTexture st i (Some p)"
        define rb where "rb = ra\<lparr>deviceCalls := deviceCalls ra @ [e2]\<rparr>"
        define err2 where "err2 = stepResult env (deviceCalls ra) e2"
        from run[unfolded step] \<open>unit \<noteq> - 1\<close> bad g Some
        have out: "(if isError err2 then (Returned err2, rb)
            else applyTexturesLoop env data st serials rest rb) = (res, r')"
          by (simp add: call_def e2_def rb_def err2_def split del: if_split cong: if_cong)
        from a(6) Some have p: "mIncompleteTextures ra ty = Some p"
          "\<And>unit ty. p \<noteq> samplerTexture (state data) unit ty" by simp_all
        have calls: "deviceCalls rb = deviceCalls r @ (evs0 @ [e2])" by (simp add: rb_def a(4))
        have inv: "cacheOwned rb" "clientTextures data rb"
          "\<forall>k q. mIncompleteTextures r k = Some q \<longrightarrow> mIncompleteTextures rb k = Some q"
          using a(1,2,3) by (simp_all add: rb_def)
        have bound: "\<forall>x. SetTexture st0 i0 x \<in> set (evs0 @ [e2]) \<longrightarrow>
          (\<exists>p. x = Some p \<and>
               mIncompleteTextures rb (samplerTextureType (programBinary data) st0 i0) = Some p \<and>
               p \<noteq> resolvedTexture data st0 i0)"
        proof (intro allI impI)
          fix y assume "SetTexture st0 i0 y \<in> set (evs0 @ [e2])"
          with none0(1) have "SetTexture st0 i0 y = e2" by simp
          then have eq: "st = st0" "i = i0" "y = Some p" by (simp_all add: e2_def)
          have "mIncompleteTextures rb (samplerTextureType (programBinary data) st0 i0) = Some p"
            using p(1) by (simp add: rb_def ty_def eq)
          moreover have "p \<noteq> resolvedTexture data st0 i0"
            using p(2) by (simp add: resolvedTexture_def)
          ultimately show "\<exists>p. y = Some p \<and>
               mIncompleteTextures rb (samplerTextureType (programBinary data) st0 i0) = Some p \<and>
               p \<noteq> resolvedTexture data st0 i0"
            using eq(3) by simp
        qed
        have nostate: "\<forall>t s. SetSamplerState st0 i0 t s \<notin> set (evs0 @ [e2])"
          using none0(2) by (simp add: e2_def)
        have bind: "\<exists>x. SetTexture st i x \<in> set (evs0 @ [e2])" by (auto simp: e2_def)
        from out have "(r' = rb \<and> (\<forall>e. res = Returned e \<longrightarrow> isError e)) \<or>
            applyTexturesLoop env data st serials rest rb = (res, r')"
          by (auto split: if_splits)
        with calls inv bound nostate bind show ?thesis
          by (intro exI[of _ rb] exI[of _ "evs0 @ [e2]"]) blast
      qed
    qed
  qed
qed

lemma applyTexturesLoop_slot:
  assumes own: "cacheOwned r" and client: "clientTextures data r"
    and mapped: "samplerMapping (programBinary data) st0 i0 \<noteq> - 1"
    and looped: "binary_search serials (textureSerial data (resolvedTexture data st0 i0))"
    and run: "applyTexturesLoop env data st serials is r = (res, r')"
  shows "cacheOwned r' \<and> clientTextures data r' \<and>
     (\<forall>k q. mIncompleteTextures r k = Some q \<longrightarrow> mIncompleteTextures r' k = Some q) \<and>
     (\<exists>evs. deviceCalls r' = deviceCalls r @ evs \<and>
        (\<forall>x. SetTexture st0 i0 x \<in> set evs \<longrightarrow>
          (\<exists>p. x = Some p \<and>
               mIncompleteTextures r' (samplerTextureType (programBinary data) st0 i0) = Some p \<and>
               p \<noteq> resolvedTexture data st0 i0)) \<and>
        (\<forall>t s. SetSamplerState st0 i0 t s \<notin> set evs) \<and>
        ((\<exists>e. res = Returned e \<and> \<not> isError e) \<longrightarrow> (\<forall>i \<in> set is. \<exists>x. SetTexture st i x \<in> set evs)))"
  using own client run
proof (induction "is" arbitrary: r)
  case Nil
  then have "r' = r" "res = Returned NoError" by simp_all
  with Nil show ?case by (intro conjI exI[of _ "[]"]) simp_all
next
  case (Cons i rest)
  from applyTexturesLoop_head[OF Cons.prems(1,2) mapped looped Cons.prems(3)]
  obtain r1 evs1 where h: "deviceCalls r1 = deviceCalls r @ evs1" "cacheOwned r1"
      "clientTextures data r1"
      "\<forall>k q. mIncompleteTextures r k = Some q \<longrightarrow> mIncompleteTextures r1 k = Some q"
      "\<forall>x. SetTexture st0 i0 x \<in> set evs1 \<longrightarrow>
          (\<exists>p. x = Some p \<and>
               mIncompleteTextures r1 (samplerTextureType (programBinary data) st0 i0) = Some p \<and>
               p \<noteq> resolvedTexture data st0 i0)"
      "\<forall>t s. SetSamplerState st0 i0 t s \<notin> set evs1"
      "(r' = r1 \<and> (\<forall>e. res = Returned e \<longrightarrow> isError e)) \<or>
       (applyTexturesLoop env data st serials rest r1 = (res, r') \<and>
        (\<exists>x. SetTexture st i x \<in> set evs1))"
    by blast
  from h(7) show ?case
  proof
    assume stop: "r' = r1 \<and> (\<forall>e. res = Returned e \<longrightarrow> isError e)"
    then have vacuous: "(\<exists>e. res = Returned e \<and> \<not> isError e) \<longrightarrow>
        (\<forall>j \<in> set (i # rest). \<exists>x. SetTexture st j x \<in> set evs1)" by blast
    from stop have eq: "r' = r1" by simp
    show ?thesis
      unfolding eq using h(2,3,4,1,5,6) vacuous
      by (intro conjI exI[of _ evs1]) assumption+
  next
    assume go: "applyTexturesLoop env data st serials rest r1 = (res, r') \<and>
        (\<exists>x. SetTexture st i x \<in> set evs1)"
    from Cons.IH[OF h(2,3) go[THEN conjunct1]] obtain evs2 where
      ih: "cacheOwned r'" "clientTextures data r'"
        "\<forall>k q. mIncompleteTextures r1 k = Some q \<longrightarrow> mIncompleteTextures r' k = Some q"
        "deviceCalls r' = deviceCalls r1 @ evs2"
        "\<forall>x. SetTexture st0 i0 x \<in> set evs2 \<longrightarrow>
          (\<exists>p. x = Some p \<and>
               mIncompleteTextures r' (samplerTextureType (programBinary data) st0 i0) = Some p \<and>
               p \<noteq> resolvedTexture data st0 i0)"
        "\<forall>t s. SetSamplerState st0 i0 t s \<notin> set evs2"
        "(\<exists>e. res = Returned e \<and> \<not> isError e) \<longrightarrow> (\<forall>j \<in> set rest. \<exists>x. SetTexture st j x \<in> set evs2)"
      by blast
    have kept: "\<forall>k q. mIncompleteTextures r k = Some q \<longrightarrow> mIncompleteTextures r' k = Some q"
      using h(4) ih(3) by blast
    have calls: "deviceCalls r' = deviceCalls r @ (evs1 @ evs2)" by (simp add: ih(4) h(1))
    have bound: "\<forall>x. SetTexture st0 i0 x \<in> set (evs1 @ evs2) \<longrightarrow>
          (\<exists>p. x = Some p \<and>
               mIncompleteTextures r' (samplerTextureType (programBinary data) st0 i0) = Some p \<and>
               p \<noteq> resolvedTexture data st0 i0)"
    proof (intro allI impI)
      fix x assume "SetTexture st0 i0 x \<in> set (evs1 @ evs2)"
      then consider "SetTexture st0 i0 x \<in> set evs1" | "SetTexture st0 i0 x \<in> set evs2" by auto
      then show "\<exists>p. x = Some p \<and>
               mIncompleteTextures r' (samplerTextureType (programBinary data) st0 i0) = Some p \<and>
               p \<noteq> resolvedTexture data st0 i0"
      proof cases
        case 1
        with h(5) obtain p where "x = Some p"
          "mIncompleteTextures r1 (samplerTextureType (programBinary data) st0 i0) = Some p"
          "p \<noteq> resolvedTexture data st0 i0" by blast
        with ih(3) show ?thesis by blast
      next
        case 2
        with ih(5) show ?thesis by blast
      qed
    qed
    have nostate: "\<forall>t s. SetSamplerState st0 i0 t s \<notin> set (evs1 @ evs2)"
      using h(6) ih(6) by simp
    have all: "(\<exists>e. res = Returned e \<and> \<not> isError e) \<longrightarrow>
        (\<forall>j \<in> set (i # rest). \<exists>x. SetTexture st j x \<in> set (evs1 @ evs2))"
      using go ih(7) by auto
    show ?thesis
      using ih(1,2) kept calls bound nostate all
      by (intro conjI exI[of _ "evs1 @ evs2"]) assumption+
  qed
qed

lemma clearTexturesLoop_slot:
  assumes "clearTexturesLoop env st is r = (res, r')"
  shows "mIncompleteTextures r' = mIncompleteTextures r \<and> createdTextures r' = createdTextures r \<and>
         nextAddress r' = nextAddress r \<and>
         (\<exists>evs. deviceCalls r' = deviceCalls r @ evs \<and>
                (\<forall>ev \<in> set evs. \<exists>i \<in> set is. ev = SetTexture st i None))"
  using assms
proof (induction "is" arbitrary: r)
  case Nil
  then have "r' = r" by simp
  then show ?case by simp
next
  case (Cons i rest)
  define r1 where "r1 = r\<lparr>deviceCalls := deviceCalls r @ [SetTexture st i None]\<rparr>"
  define err where "err = stepResult env (deviceCalls r) (SetTexture st i None)"
  from Cons.prems have out: "(if isError err then (Returned err, r1)
        else clearTexturesLoop env st rest r1) = (res, r')"
    by (simp add: call_def r1_def err_def split del: if_split cong: if_cong)
  show ?case
  proof (cases "isError err")
    case True
    with out have "r' = r1" by simp
    then show ?thesis by (intro conjI exI[of _ "[SetTexture st i None]"]) (simp_all add: r1_def)
  next
    case False
    with out have "clearTexturesLoop env st rest r1 = (res, r')" by simp
    from Cons.IH[OF this] obtain evs2 where ih: "mIncompleteTextures r' = mIncompleteTextures r1"
      "createdTextures r' = createdTextures r1" "nextAddress r' = nextAddress r1"
      "deviceCalls r' = deviceCalls r1 @ evs2" "\<forall>ev \<in> set evs2. \<exists>i \<in> set rest. ev = SetTexture st i None"
      by blast
    then show ?thesis
      by (intro conjI exI[of _ "SetTexture st i None # evs2"]) (auto simp: r1_def)
  qed
qed

lemma andThen_cases:
  assumes "andThen f g r = (res, r')"
  obtains (stop) "f r = (res, r')" "\<forall>e. res = Returned e \<longrightarrow> isError e"
  | (go) e r1 where "f r = (Returned e, r1)" "\<not> isError e" "g r1 = (res, r')"
proof (cases "f r")
  case (Pair res1 r1)
  show ?thesis
  proof (cases res1)
    case AssertFailed
    with Pair assms have "f r = (res, r')" "\<forall>e. res = Returned e \<longrightarrow> isError e"
      by (auto simp: andThen_def)
    then show ?thesis by (rule stop)
  next
    case (Returned e)
    show ?thesis
    proof (cases "isError e")
      case True
      with Pair Returned assms have "f r = (res, r')" "\<forall>e. res = Returned e \<longrightarrow> isError e"
        by (auto simp: andThen_def)
      then show ?thesis by (rule stop)
    next
      case False
      with Pair Returned assms have "g r1 = (res, r')" by (simp add: andThen_def)
      with Pair Returned False show ?thesis by (intro go) simp_all
    qed
  qed
qed

lemma applyTexturesFor_slot:
  assumes own: "cacheOwned r" and client: "clientTextures data r"
    and used: "i0 < usedSamplerRange (programBinary data) st0"
    and mapped: "samplerMapping (programBinary data) st0 i0 \<noteq> - 1"
    and looped: "binary_search serials (textureSerial data (resolvedTexture data st0 i0))"
    and run: "applyTexturesFor env data st serials r = (res, r')"
  shows "cacheOwned r' \<and> clientTextures data r' \<and>
     (\<forall>k q. mIncompleteTextures r k = Some q \<longrightarrow> mIncompleteTextures r' k = Some q) \<and>
     (\<exists>evs. deviceCalls r' = deviceCalls r @ evs \<and>
        (\<forall>x. SetTexture st0 i0 x \<in> set evs \<longrightarrow>
          (\<exists>p. x = Some p \<and>
               mIncompleteTextures r' (samplerTextureType (programBinary data) st0 i0) = Some p \<and>
               p \<noteq> resolvedTexture data st0 i0)) \<and>
        (\<forall>t s. SetSamplerState st0 i0 t s \<notin> set evs) \<and>
        ((\<exists>e. res = Returned e \<and> \<not> isError e) \<and> st = st0 \<longrightarrow>
           (\<exists>x. SetTexture st0 i0 x \<in> set evs)))"
proof -
  define n where "n = usedSamplerRange (programBinary data) st"
  define m where "m = (if st = SAMPLER_PIXEL then maxTextureImageUnits (caps data)
                       else maxVertexTextureImageUnits (caps data))"
  from run have run': "andThen (applyTexturesLoop env data st serials [0..<n])
           (clearTexturesLoop env st [n..<m]) r = (res, r')"
    by (simp add: applyTexturesFor_def Let_def n_def m_def)
  from run' show ?thesis
  proof (cases rule: andThen_cases)
    case stop
    from applyTexturesLoop_slot[OF own client mapped looped stop(1)] obtain evs where
      a: "cacheOwned r'" "clientTextures data r'"
        "\<forall>k q. mIncompleteTextures r k = Some q \<longrightarrow> mIncompleteTextures r' k = Some q"
        "deviceCalls r' = deviceCalls r @ evs"
        "\<forall>x. SetTexture st0 i0 x \<in> set evs \<longrightarrow>
          (\<exists>p. x = Some p \<and>
               mIncompleteTextures r' (samplerTextureType (programBinary data) st0 i0) = Some p \<and>
               p \<noteq> resolvedTexture data st0 i0)"
        "\<forall>t s. SetSamplerState st0 i0 t s \<notin> set evs"
      by blast
    from stop(2) have "(\<exists>e. res = Returned e \<and> \<not> isError e) \<and> st = st0 \<longrightarrow>
           (\<exists>x. SetTexture st0 i0 x \<in> set evs)" by blast
    with a show ?thesis
      by (intro conjI exI[of _ evs]) assumption+
  next
    case (go e r1)
    from applyTexturesLoop_slot[OF own client mapped looped go(1)] go(2) obtain evs1 where
      a: "cacheOwned r1" "clientTextures data r1"
        "\<forall>k q. mIncompleteTextures r k = Some q \<longrightarrow> mIncompleteTextures r1 k = Some q"
        "deviceCalls r1 = deviceCalls r @ evs1"
        "\<forall>x. SetTexture st0 i0 x \<in> set evs1 \<longrightarrow>
          (\<exists>p. x = Some p \<and>
               mIncompleteTextures r1 (samplerTextureType (programBinary data) st0 i0) = Some p \<and>
               p \<noteq> resolvedTexture data st0 i0)"
        "\<forall>t s. SetSamplerState st0 i0 t s \<notin> set evs1"
        "\<forall>i \<in> set [0..<n]. \<exists>x. SetTexture st i x \<in> set evs1"
      by blast
    from clearTexturesLoop_slot[OF go(3)] obtain evs2 where
      b: "mIncompleteTextures r' = mIncompleteTextures r1" "createdTextures r' = createdTextures r1"
        "nextAddress r' = nextAddress r1" "deviceCalls r' = deviceCalls r1 @ evs2"
        "\<forall>ev \<in> set evs2. \<exists>i \<in> set [n..<m]. ev = SetTexture st i None"
      by blast
    have o: "cacheOwned r'" using a(1) by (simp add: cacheOwned_def b)
    have c: "clientTextures data r'" using a(2) by (simp add: clientTextures_def b)
    have kept: "\<forall>k q. mIncompleteTextures r k = Some q \<longrightarrow> mIncompleteTextures r' k = Some q"
      using a(3) by (simp add: b)
    have calls: "deviceCalls r' = deviceCalls r @ (evs1 @ evs2)" by (simp add: a(4) b(4))
    have none2: "SetTexture st0 i0 x \<notin> set evs2" for x
    proof
      assume "SetTexture st0 i0 x \<in> set evs2"
      with b(5) obtain i where "i \<in> set [n..<m]" "SetTexture st0 i0 x = SetTexture st i None"
        by blast
      then have "st = st0" "n \<le> i0" by simp_all
      with used show False by (simp add: n_def)
    qed
    have bound: "\<forall>x. SetTexture st0 i0 x \<in> set (evs1 @ evs2) \<longrightarrow>
          (\<exists>p. x = Some p \<and>
               mIncompleteTextures r' (samplerTextureType (programBinary data) st0 i0) = Some p \<and>
               p \<noteq> resolvedTexture data st0 i0)"
      using a(5) none2 by (simp add: b(1))
    have nostate: "\<forall>t s. SetSamplerState st0 i0 t s \<notin> set (evs1 @ evs2)"
      using a(6) b(5) by auto
    have bind: "(\<exists>e. res = Returned e \<and> \<not> isError e) \<and> st = st0 \<longrightarrow>
           (\<exists>x. SetTexture st0 i0 x \<in> set (evs1 @ evs2))"
    proof
      assume "(\<exists>e. res = Returned e \<and> \<not> isError e) \<and> st = st0"
      then have "i0 \<in> set [0..<n]" using used by (simp add: n_def)
      with a(7) obtain x where "SetTexture st i0 x \<in> set evs1" by blast
      with \<open>(\<exists>e. res = Returned e \<and> \<not> isError e) \<and> st = st0\<close>
      show "\<exists>x. SetTexture st0 i0 x \<in> set (evs1 @ evs2)" by auto
    qed
    show ?thesis
      using o c kept calls bound nostate bind
      by (intro conjI exI[of _ "evs1 @ evs2"]) assumption+
  qed
qed

lemma applyTextures_slot:
  assumes own: "cacheOwned r" and client: "clientTextures data r"
    and used: "i0 < usedSamplerRange (programBinary data) st0"
    and mapped: "samplerMapping (programBinary data) st0 i0 \<noteq> - 1"
    and looped: "binary_search (getBoundFramebufferTextureSerials data)
                   (textureSerial data (resolvedTexture data st0 i0))"
    and run: "applyTextures env data r = (res, r')"
  shows "cacheOwned r' \<and> clientTextures data r' \<and>
     (\<forall>k q. mIncompleteTextures r k = Some q \<longrightarrow> mIncompleteTextures r' k = Some q) \<and>
     (\<exists>evs. deviceCalls r' = deviceCalls r @ evs \<and>
        (\<forall>x. SetTexture st0 i0 x \<in> set evs \<longrightarrow>
          (\<exists>p. x = Some p \<and>
               mIncompleteTextures r' (samplerTextureType (programBinary data) st0 i0) = Some p \<and>
               p \<noteq> resolvedTexture data st0 i0)) \<and>
        (\<forall>t s. SetSamplerState st0 i0 t s \<notin> set evs) \<and>
        ((\<exists>e. res = Returned e \<and> \<not> isError e) \<longrightarrow> (\<exists>x. SetTexture st0 i0 x \<in> set evs)))"
proof -
  let ?serials = "getBoundFramebufferTextureSerials data"
  let ?ty = "samplerTextureType (programBinary data) st0 i0"
  from run have run': "andThen (applyTexturesFor env data SAMPLER_VERTEX ?serials)
      (andThen (applyTexturesFor env data SAMPLER_PIXEL ?serials) succeed) r = (res, r')"
    by (simp add: applyTextures_def Let_def)
  note slot = applyTexturesFor_slot[OF _ _ used mapped looped]
  from run' show ?thesis
  proof (cases rule: andThen_cases)
    case stop
    from slot[OF own client stop(1)] obtain evs where
      a: "cacheOwned r'" "clientTextures data r'"
        "\<forall>k q. mIncompleteTextures r k = Some q \<longrightarrow> mIncompleteTextures r' k = Some q"
        "deviceCalls r' = deviceCalls r @ evs"
        "\<forall>x. SetTexture st0 i0 x \<in> set evs \<longrightarrow>
          (\<exists>p. x = Some p \<and> mIncompleteTextures r' ?ty = Some p \<and> p \<noteq> resolvedTexture data st0 i0)"
        "\<forall>t s. SetSamplerState st0 i0 t s \<notin> set evs"
      by blast
    from stop(2) have "(\<exists>e. res = Returned e \<and> \<not> isError e) \<longrightarrow>
        (\<exists>x. SetTexture st0 i0 x \<in> set evs)" by blast
    with a show ?thesis by (intro conjI exI[of _ evs]) assumption+
  next
    case (go e1 r1)
    from slot[OF own client go(1)] go(2) obtain evs1 where
      a: "cacheOwned r1" "clientTextures data r1"
        "\<forall>k q. mIncompleteTextures r k = Some q \<longrightarrow> mIncompleteTextures r1 k = Some q"
        "deviceCalls r1 = deviceCalls r @ evs1"
        "\<forall>x. SetTexture st0 i0 x \<in> set evs1 \<longrightarrow>
          (\<exists>p. x = Some p \<and> mIncompleteTextures r1 ?ty = Some p \<and> p \<noteq> resolvedTexture data st0 i0)"
        "\<forall>t s. SetSamplerState st0 i0 t s \<notin> set evs1"
        "SAMPLER_VERTEX = st0 \<longrightarrow> (\<exists>x. SetTexture st0 i0 x \<in> set evs1)"
      by blast
    obtain res2 r2 where second: "applyTexturesFor env data SAMPLER_PIXEL ?serials r1 = (res2, r2)"
      and fin: "r' = r2" "(\<exists>e. res = Returned e \<and> \<not> isError e) \<longrightarrow>
                          (\<exists>e. res2 = Returned e \<and> \<not> isError e)"
      using go(3)
    proof (cases rule: andThen_cases)
      case stop
      show ?thesis by (rule that[OF stop(1)]) simp_all
    next
      case (go e2 r2)
      from go(3) have "r' = r2" by (simp add: succeed_def)
      moreover from go(2) have "(\<exists>e. res = Returned e \<and> \<not> isError e) \<longrightarrow>
                          (\<exists>e. Returned e2 = Returned e \<and> \<not> isError e)" by simp
      ultimately show ?thesis by (rule that[OF go(1)])
    qed
    from slot[OF a(1,2) second] obtain evs2 where
      b: "cacheOwned r2" "clientTextures data r2"
        "\<forall>k q. mIncompleteTextures r1 k = Some q \<longrightarrow> mIncompleteTextures r2 k = Some q"
        "deviceCalls r2 = deviceCalls r1 @ evs2"
        "\<forall>x. SetTexture st0 i0 x \<in> set evs2 \<longrightarrow>
          (\<exists>p. x = Some p \<and> mIncompleteTextures r2 ?ty = Some p \<and> p \<noteq> resolvedTexture data st0 i0)"
        "\<forall>t s. SetSamplerState st0 i0 t s \<notin> set evs2"
        "(\<exists>e. res2 = Returned e \<and> \<not> isError e) \<and> SAMPLER_PIXEL = st0 \<longrightarrow>
           (\<exists>x. SetTexture st0 i0 x \<in> set evs2)"
      by (elim conjE exE) (rule that; assumption)
    have o: "cacheOwned r'" "clientTextures data r'" using b(1,2) by (simp_all add: fin(1))
    have kept: "\<forall>k q. mIncompleteTextures r k = Some q \<longrightarrow> mIncompleteTextures r' k = Some q"
      using a(3) b(3) unfolding fin(1) by blast
    have calls: "deviceCalls r' = deviceCalls r @ (evs1 @ evs2)" by (simp add: fin(1) a(4) b(4))
    have bound: "\<forall>x. SetTexture st0 i0 x \<in> set (evs1 @ evs2) \<longrightarrow>
          (\<exists>p. x = Some p \<and> mIncompleteTextures r' ?ty = Some p \<and> p \<noteq> resolvedTexture data st0 i0)"
    proof (intro allI impI)
      fix x assume "SetTexture st0 i0 x \<in> set (evs1 @ evs2)"
      then consider "SetTexture st0 i0 x \<in> set evs1" | "SetTexture st0 i0 x \<in> set evs2" by auto
      then show "\<exists>p. x = Some p \<and> mIncompleteTextures r' ?ty = Some p \<and>
                     p \<noteq> resolvedTexture data st0 i0"
      proof cases
        case 1
        with a(5) obtain p where "x = Some p" "mIncompleteTextures r1 ?ty = Some p"
          "p \<noteq> resolvedTexture data st0 i0" by blast
        with b(3) show ?thesis unfolding fin(1) by blast
      next
        case 2
        with b(5) show ?thesis unfolding fin(1) by blast
      qed
    qed
    have nostate: "\<forall>t s. SetSamplerState st0 i0 t s \<notin> set (evs1 @ evs2)"
      using a(6) b(6) by simp
    have bind: "(\<exists>e. res = Returned e \<and> \<not> isError e) \<longrightarrow>
        (\<exists>x. SetTexture st0 i0 x \<in> set (evs1 @ evs2))"
    proof
      assume "\<exists>e. res = Returned e \<and> \<not> isError e"
      with fin(2) have ok2: "\<exists>e. res2 = Returned e \<and> \<not> isError e" by blast
      show "\<exists>x. SetTexture st0 i0 x \<in> set (evs1 @ evs2)"
      proof (cases st0)
        case SAMPLER_PIXEL
        with b(7) ok2 obtain x where "SetTexture st0 i0 x \<in> set evs2" by auto
        then show ?thesis by auto
      next
        case SAMPLER_VERTEX
        with a(7) obtain x where "SetTexture st0 i0 x \<in> set evs1" by auto
        then show ?thesis by auto
      qed
    qed
    show ?thesis
      using o kept calls bound nostate bind
      by (intro conjI exI[of _ "evs1 @ evs2"]) assumption+
  qed
qed

lemma textures_run:
  "fst (applyTextures willingBackend sceneData (newRenderer 100)) = Returned NoError"
  "deviceCalls (snd (applyTextures willingBackend sceneData (newRenderer 100)))
     = [SetTexture SAMPLER_VERTEX 0 None,
        CreateTexture GL_TEXTURE_2D,
        SetTexture SAMPLER_PIXEL 0 (Some 100),
        SetSamplerState SAMPLER_PIXEL 1 11 \<lparr>swizzleRequired = True, samplingParameters = []\<rparr>,
        SetTexture SAMPLER_PIXEL 1 (Some 11),
        SetTexture SAMPLER_PIXEL 2 None]"
  "mIncompleteTextures (snd (applyTextures willingBackend sceneData (newRenderer 100))) GL_TEXTURE_2D
     = Some 100"
  by (simp_all add: run_defs scene_defs)

text \<open>
  C2. In \<open>applyTextures\<close>, take a sampler that the program uses and that is mapped to a
  texture unit, and let the serial of the texture resolved for it be among the serials of
  the framebuffer's attachments. Then every texture bound for that sampler is the
  placeholder that the cache of incomplete textures holds for the sampler's texture type,
  an object this renderer created and not the resolved texture; no sampler state of the
  resolved texture is set for it; and when \<open>applyTextures\<close> returns without an error
  the placeholder has been bound. Whether the texture is sampler complete plays no part.
  The textures of the client are taken to be live objects that the renderer did not
  create, which \<open>applyTextures\<close> preserves.
\<close>

theorem feedback_loop_binds_placeholder:
  assumes "cacheOwned r" and "clientTextures data r"
    and "applyTextures env data r = (res, r')"
    and "samplerIndex < usedSamplerRange (programBinary data) shaderType"
    and "samplerMapping (programBinary data) shaderType samplerIndex \<noteq> - 1"
    and "textureSerial data (resolvedTexture data shaderType samplerIndex)
           \<in> set (getBoundFramebufferTextureSerials data)"
  shows "cacheOwned r' \<and> clientTextures data r' \<and>
     (\<exists>evs. deviceCalls r' = deviceCalls r @ evs \<and>
        (\<forall>x. SetTexture shaderType samplerIndex x \<in> set evs \<longrightarrow>
          (\<exists>p. x = Some p \<and>
               mIncompleteTextures r' (samplerTextureType (programBinary data) shaderType samplerIndex)
                 = Some p \<and>
               createdTextures r' p \<noteq> None \<and>
               p \<noteq> resolvedTexture data shaderType samplerIndex)) \<and>
        (\<forall>t s. SetSamplerState shaderType samplerIndex t s \<notin> set evs) \<and>
        ((\<exists>e. res = Returned e \<and> \<not> isError e) \<longrightarrow>
           (\<exists>x. SetTexture shaderType samplerIndex x \<in> set evs)))"
proof -
  let ?ty = "samplerTextureType (programBinary data) shaderType samplerIndex"
  have "binary_search (getBoundFramebufferTextureSerials data)
          (textureSerial data (resolvedTexture data shaderType samplerIndex))"
    using assms(6) by (simp only: binary_search_iff[OF sorted_getBoundFramebufferTextureSerials])
  from applyTextures_slot[OF assms(1,2,4,5) this assms(3)] obtain evs where
    a: "cacheOwned r'" "clientTextures data r'" "deviceCalls r' = deviceCalls r @ evs"
      "\<forall>x. SetTexture shaderType samplerIndex x \<in> set evs \<longrightarrow>
          (\<exists>p. x = Some p \<and> mIncompleteTextures r' ?ty = Some p \<and>
               p \<noteq> resolvedTexture data shaderType samplerIndex)"
      "\<forall>t s. SetSamplerState shaderType samplerIndex t s \<notin> set evs"
      "(\<exists>e. res = Returned e \<and> \<not> isError e) \<longrightarrow> (\<exists>x. SetTexture shaderType samplerIndex x \<in> set evs)"
    by (elim conjE exE) (rule that; assumption)
  have "\<forall>x. SetTexture shaderType samplerIndex x \<in> set evs \<longrightarrow>
          (\<exists>p. x = Some p \<and> mIncompleteTextures r' ?ty = Some p \<and> createdTextures r' p \<noteq> None \<and>
               p \<noteq> resolvedTexture data shaderType samplerIndex)"
  proof (intro allI impI)
    fix x assume "SetTexture shaderType samplerIndex x \<in> set evs"
    with a(4) obtain p where p: "x = Some p" "mIncompleteTextures r' ?ty = Some p"
      "p \<noteq> resolvedTexture data shaderType samplerIndex" by blast
    from a(1) p(2) have "createdTextures r' p \<noteq> None" unfolding cacheOwned_def by blast
    with p show "\<exists>p. x = Some p \<and> mIncompleteTextures r' ?ty = Some p \<and>
        createdTextures r' p \<noteq> None \<and> p \<noteq> resolvedTexture data shaderType samplerIndex" by blast
  qed
  with a(1,2,3,5,6) show ?thesis by (intro conjI exI[of _ evs]) assumption+
qed

theorem feedback_loop_binds_placeholder_witness:
  "resolvedTexture sceneData SAMPLER_PIXEL 0 = 10 \<and>
   textureSerial sceneData 10 \<in> set (getBoundFramebufferTextureSerials sceneData) \<and>
   isSamplerComplete sceneData 10 (textureSamplerState sceneData 10) \<and>
   fst (applyTextures willingBackend sceneData (newRenderer 100)) = Returned NoError \<and>
   SetTexture SAMPLER_PIXEL 0 (Some 100)
     \<in> set (deviceCalls (snd (applyTextures willingBackend sceneData (newRenderer 100)))) \<and>
   SetTexture SAMPLER_PIXEL 0 (Some 10)
     \<notin> set (deviceCalls (snd (applyTextures willingBackend sceneData (newRenderer 100)))) \<and>
   mIncompleteTextures (snd (applyTextures willingBackend sceneData (newRenderer 100))) GL_TEXTURE_2D
     = Some 100"
proof -
  let ?run = "applyTextures willingBackend sceneData (newRenderer 100)"
  have run: "?run = (fst ?run, snd ?run)" by simp
  have nil: "deviceCalls (newRenderer 100) = []" by (simp add: newRenderer_def)
  have own: "cacheOwned (newRenderer 100)" by (simp add: cacheOwned_def newRenderer_def)
  have client: "clientTextures sceneData (newRenderer 100)"
    by (simp add: clientTextures_def newRenderer_def sceneData_def sceneState_def)
  have used: "0 < usedSamplerRange (programBinary sceneData) SAMPLER_PIXEL"
    and mapped: "samplerMapping (programBinary sceneData) SAMPLER_PIXEL 0 \<noteq> - 1"
    and ty: "samplerTextureType (programBinary sceneData) SAMPLER_PIXEL 0 = GL_TEXTURE_2D"
    by (simp_all add: sceneData_def)
  have tex: "resolvedTexture sceneData SAMPLER_PIXEL 0 = 10"
    by (simp add: resolvedTexture_def sceneData_def sceneState_def)
  have serial: "textureSerial sceneData 10 \<in> set (getBoundFramebufferTextureSerials sceneData)"
    by (simp add: serials_of_scene) (simp add: sceneData_def)
  have complete: "isSamplerComplete sceneData 10 (textureSamplerState sceneData 10)"
    by (simp add: sceneData_def)
  from serial have looped: "textureSerial sceneData (resolvedTexture sceneData SAMPLER_PIXEL 0)
      \<in> set (getBoundFramebufferTextureSerials sceneData)" by (simp only: tex)
  from feedback_loop_binds_placeholder[OF own client run used mapped looped]
  obtain evs where evs: "deviceCalls (snd ?run) = deviceCalls (newRenderer 100) @ evs"
    and bound: "\<forall>x. SetTexture SAMPLER_PIXEL 0 x \<in> set evs \<longrightarrow>
          (\<exists>p. x = Some p \<and>
               mIncompleteTextures (snd ?run) (samplerTextureType (programBinary sceneData) SAMPLER_PIXEL 0)
                 = Some p \<and>
               createdTextures (snd ?run) p \<noteq> None \<and>
               p \<noteq> resolvedTexture sceneData SAMPLER_PIXEL 0)"
    and bind: "(\<exists>e. fst ?run = Returned e \<and> \<not> isError e) \<longrightarrow>
           (\<exists>x. SetTexture SAMPLER_PIXEL 0 x \<in> set evs)"
    by blast
  have calls: "evs = deviceCalls (snd ?run)" using evs by (simp add: nil)
  have "\<not> isError NoError" by (simp add: isError_def NoError_def)
  with bind textures_run(1) obtain x where x: "SetTexture SAMPLER_PIXEL 0 x \<in> set evs" by auto
  with bound obtain p where p: "x = Some p" "mIncompleteTextures (snd ?run) GL_TEXTURE_2D = Some p"
    "p \<noteq> 10" unfolding ty tex by blast
  from p(2) have "p = 100" by (simp add: textures_run(3))
  with x p(1) have yes: "SetTexture SAMPLER_PIXEL 0 (Some 100) \<in> set (deviceCalls (snd ?run))"
    by (simp add: calls)
  have no: "SetTexture SAMPLER_PIXEL 0 (Some 10) \<notin> set (deviceCalls (snd ?run))"
  proof
    assume "SetTexture SAMPLER_PIXEL 0 (Some 10) \<in> set (deviceCalls (snd ?run))"
    with bound have "\<exists>p. Some 10 = Some p \<and> p \<noteq> resolvedTexture sceneData SAMPLER_PIXEL 0"
      unfolding calls by blast
    then show False by (simp add: tex)
  qed
  from tex serial complete textures_run(1,3) yes no show ?thesis by simp
qed

end
